theory Spec2Isabelle
  imports Main "HOL-Library.Word" "HOL-Library.Signed_Division" "HOL-Library.AList"
    "HOL-Library.Multiset"
begin

section \<open>Values and errors\<close>

text \<open>
  Go's \<open>int64\<close> is a 64-bit word read as two's complement (\<open>sint\<close>); \<open>+\<close>, \<open>-\<close> and \<open>*\<close>
  wrap around as Go's do. A \<open>float64\<close> is carried as its 64 bits: the importer passes sample
  values through unchanged. A \<open>storage.SeriesRef\<close> is a \<open>uint64\<close>, a \<open>ulid.ULID\<close> is 16 bytes.
  A \<open>labels.Labels\<close> value is a list of name/value pairs.
\<close>

type_synonym int64 = "64 word"
type_synonym float64 = "64 word"
type_synonym SeriesRef = "64 word"
type_synonym ULID = "128 word"
type_synonym Labels = "(string \<times> string) list"

text \<open>
  Error values. \<open>EOF\<close> is the one value \<open>io.EOF\<close>, which \<open>Import\<close> compares by identity;
  \<open>New msg\<close> is \<open>errors.New(msg)\<close> and stands for every plain error of a library as well;
  \<open>Wrap err msg\<close> is \<open>errors.Wrap(err, msg)\<close> on a non-nil \<open>err\<close>; \<open>Errorf fmt l\<close> is
  \<open>errors.Errorf(fmt, l.String())\<close>. \<open>nonNilMultiError e es\<close> is the value
  \<open>multiError.Err()\<close> of \<open>tsdb/errors\<close> returns for the non-empty error list \<open>e # es\<close>: that
  package builds it for non-empty lists only, which the two arguments enforce. A Go
  \<open>error\<close> that may be \<open>nil\<close> is an \<open>error option\<close>.
\<close>

datatype error =
    EOF
  | New string
  | Wrap error string
  | Errorf string Labels
  | nonNilMultiError error "error list"

definition io_EOF :: error where
  "io_EOF = EOF"

text \<open>
  \<open>tsdb_errors.NewMulti()\<close>, \<open>multiError.Add\<close> and \<open>multiError.Err\<close>: \<open>Add\<close> skips \<open>nil\<close>,
  splices the errors of a \<open>nonNilMultiError\<close> into the list and appends any other error;
  \<open>Err\<close> is \<open>nil\<close> for the empty list.
\<close>

type_synonym multiError = "error list"

definition NewMulti :: multiError where
  "NewMulti = []"

fun Add :: "multiError \<Rightarrow> error option \<Rightarrow> multiError" where
  "Add es None = es"
| "Add es (Some (nonNilMultiError e errs)) = es @ e # errs"
| "Add es (Some err) = es @ [err]"

fun Err :: "multiError \<Rightarrow> error option" where
  "Err [] = None"
| "Err (e # es) = Some (nonNilMultiError e es)"

text \<open>
  A call either returns or panics. The panics of the source are the integer division by
  zero in \<open>rangeForTimestamp\<close> and a method call through a \<open>nil\<close> \<open>*tsdb.Head\<close>.
\<close>

datatype 'a outcome = Returns 'a | Panics

section \<open>Bucketing (multi.go)\<close>

record Range =
  Start :: int64
  End :: int64

text \<open>
  Go's \<open>/\<close> on \<open>int64\<close> truncates towards zero (\<open>sdiv\<close> on the signed values) and wraps
  for \<open>MinInt64 / -1\<close>; division by zero panics, which \<open>rangeForTimestamp\<close> shows as \<open>None\<close>.
\<close>

definition go_div :: "int64 \<Rightarrow> int64 \<Rightarrow> int64" where
  "go_div a b = word_of_int (sint a sdiv sint b)"

definition rangeForTimestamp :: "int64 \<Rightarrow> int64 \<Rightarrow> int64 option" where
  "rangeForTimestamp t width =
     (if width = 0 then None else Some (go_div t width * width + width))"

text \<open>
  The first two lines of \<open>getOrCreate\<close>: \<open>maxt := rangeForTimestamp(t, w.sizeMillis)\<close> and
  \<open>hash := index.Range{Start: maxt - w.sizeMillis, End: maxt}\<close>.
\<close>

definition rangeKey :: "int64 \<Rightarrow> int64 \<Rightarrow> Range option" where
  "rangeKey t width =
     (case rangeForTimestamp t width of
        None \<Rightarrow> None
      | Some maxt \<Rightarrow> Some \<lparr>Start = maxt - width, End = maxt\<rparr>)"

section \<open>The single-bucket builder (writer.go)\<close>

text \<open>
  What this code reads of the external \<open>tsdb.Head\<close>: the samples its appender has accepted
  so far. The engine keeps one series per distinct label set, so \<open>NumSeries\<close> counts the
  distinct label sets among them; \<open>MinTime\<close> and \<open>MaxTime\<close> start at \<open>math.MaxInt64\<close> and
  \<open>math.MinInt64\<close> and follow the timestamps.
\<close>

record Head =
  appended :: "(Labels \<times> int64 \<times> float64) list"

definition NumSeries :: "Head \<Rightarrow> nat" where
  "NumSeries h = length (remdups (map fst (appended h)))"

definition smin :: "int64 \<Rightarrow> int64 \<Rightarrow> int64" where
  "smin a b = (if sint a \<le> sint b then a else b)"

definition smax :: "int64 \<Rightarrow> int64 \<Rightarrow> int64" where
  "smax a b = (if sint a \<le> sint b then b else a)"

definition MinTime :: "Head \<Rightarrow> int64" where
  "MinTime h = fold smin (map (\<lambda>(l, t, v). t) (appended h)) 9223372036854775807"

definition MaxTime :: "Head \<Rightarrow> int64" where
  "MaxTime h = fold smax (map (\<lambda>(l, t, v). t) (appended h)) (- 9223372036854775808)"

text \<open>
  \<open>TSDBWriter\<close> without its logger, which only prints. \<open>head\<close> is the \<open>*tsdb.Head\<close>
  pointer, \<open>None\<close> while it is \<open>nil\<close>.
\<close>

record TSDBWriter =
  dir :: string
  labels :: Labels
  head :: "Head option"
  tmpDir :: string

text \<open>
  The values of interface type \<open>storage.Appender\<close> that \<open>getOrCreate\<close> hands out: the
  appender of the head of the builder at an address, or an \<open>errAppender\<close>.
\<close>

datatype Appender = headAppender nat | errAppender "error option"

record Exemplar =
  ExLabels :: Labels
  Value :: float64
  Ts :: int64
  HasTs :: bool

text \<open>
  The world outside the coordinator: the builders allocated so far, by address (a
  \<open>*TSDBWriter\<close> is an index into \<open>store\<close>), and the calls made so far on handles, on
  builders and into the libraries, in order. \<open>E_NewTSDBWriter a err\<close> records that
  \<open>NewTSDBWriter\<close> returned the builder at \<open>a\<close> with error \<open>err\<close>.
\<close>

datatype event =
    E_NewTSDBWriter nat "error option"
  | E_TempDir nat
  | E_NewHead nat
  | E_Init nat
  | E_Append Appender SeriesRef Labels int64 float64
  | E_AppendExemplar Appender SeriesRef Labels Exemplar
  | E_Commit Appender
  | E_Rollback Appender
  | E_Flush nat
  | E_NewLeveledCompactor nat
  | E_Write nat int64 int64
  | E_ReadFromDir nat ULID
  | E_WriteToDir nat ULID
  | E_Close nat
  | E_RemoveAll nat string
  | E_HeadClose nat

record world =
  store :: "TSDBWriter list"
  trace :: "event list"

text \<open>
  What the libraries answer. Each field gives the result of a library call from the
  number of events before it, so that any sequence of successes and failures can be
  written down. \<open>range_order\<close> is the order in which a \<open>range\<close> over a map visits the
  entries, as a rearrangement of their positions; Go leaves it unspecified.
\<close>

record ext =
  TempDir_r :: "nat \<Rightarrow> string \<times> error option"
  NewHead_r :: "nat \<Rightarrow> error option"
  Init_r :: "nat \<Rightarrow> error option"
  Append_r :: "nat \<Rightarrow> SeriesRef \<times> error option"
  AppendExemplar_r :: "nat \<Rightarrow> SeriesRef \<times> error option"
  Commit_r :: "nat \<Rightarrow> error option"
  Rollback_r :: "nat \<Rightarrow> error option"
  NewLeveledCompactor_r :: "nat \<Rightarrow> error option"
  Write_r :: "nat \<Rightarrow> ULID \<times> error option"
  ReadFromDir_r :: "nat \<Rightarrow> error option"
  WriteToDir_r :: "nat \<Rightarrow> error option"
  HeadClose_r :: "nat \<Rightarrow> error option"
  range_order :: "nat \<Rightarrow> nat list \<Rightarrow> nat list"

definition emit :: "event \<Rightarrow> world \<Rightarrow> world" where
  "emit e s = s\<lparr>trace := trace s @ [e]\<rparr>"

definition now :: "world \<Rightarrow> nat" where
  "now s = length (trace s)"

definition update_writer :: "nat \<Rightarrow> (TSDBWriter \<Rightarrow> TSDBWriter) \<Rightarrow> world \<Rightarrow> world" where
  "update_writer a f s = s\<lparr>store := (store s)[a := f (store s ! a)]\<rparr>"

definition head_of :: "world \<Rightarrow> nat \<Rightarrow> Head option" where
  "head_of s a = (if a < length (store s) then head (store s ! a) else None)"

text \<open>\<open>initHead\<close> on the builder at address \<open>a\<close>.\<close>

definition initHead :: "ext \<Rightarrow> nat \<Rightarrow> world \<Rightarrow> error option \<times> world" where
  "initHead x a s0 =
     (let s1 = emit (E_TempDir a) s0 in
      case TempDir_r x (now s0) of
        (tmp, Some err) \<Rightarrow> (Some (Wrap err ''create temp dir''), s1)
      | (tmp, None) \<Rightarrow>
          (let s2 = update_writer a (\<lambda>w. w\<lparr>tmpDir := tmp\<rparr>) s1;
               s3 = emit (E_NewHead a) s2 in
           case NewHead_r x (now s2) of
             Some err \<Rightarrow> (Some (Wrap err ''tsdb.NewHead''), s3)
           | None \<Rightarrow>
               (let s4 = update_writer a (\<lambda>w. w\<lparr>head := Some \<lparr>appended = []\<rparr>\<rparr>) s3
                in (Init_r x (now s4), emit (E_Init a) s4))))"

text \<open>
  \<open>NewTSDBWriter\<close> allocates the builder at the next free address and returns it
  together with the error of \<open>initHead\<close>, as the source's \<open>return res, res.initHead()\<close>.
\<close>

definition NewTSDBWriter ::
    "ext \<Rightarrow> string \<Rightarrow> Labels \<Rightarrow> world \<Rightarrow> (nat \<times> error option) \<times> world" where
  "NewTSDBWriter x d lbls s0 =
     (let res = length (store s0);
          s1 = s0\<lparr>store := store s0 @ [\<lparr>dir = d, labels = lbls, head = None, tmpDir = []\<rparr>]\<rparr>
      in case initHead x res s1 of
           (err, s2) \<Rightarrow> ((res, err), emit (E_NewTSDBWriter res err) s2))"

definition TSDBWriter_Appender :: "nat \<Rightarrow> world \<Rightarrow> Appender outcome" where
  "TSDBWriter_Appender a s =
     (case head_of s a of None \<Rightarrow> Panics | Some h \<Rightarrow> Returns (headAppender a))"

definition TSDBWriter_Flush ::
    "ext \<Rightarrow> nat \<Rightarrow> world \<Rightarrow> (ULID list \<times> error option) outcome \<times> world" where
  "TSDBWriter_Flush x a s0 =
     (let s = emit (E_Flush a) s0 in
      case head_of s a of
        None \<Rightarrow> (Panics, s)
      | Some h \<Rightarrow>
          if NumSeries h = 0
          then (Returns ([], Some (New ''no series appended; aborting.'')), s)
          else
            (let mint = MinTime h;
                 maxt = MaxTime h + 1;
                 s1 = emit (E_NewLeveledCompactor a) s in
             case NewLeveledCompactor_r x (now s) of
               Some err \<Rightarrow> (Returns ([], Some (Wrap err ''create leveled compactor'')), s1)
             | None \<Rightarrow>
                 (let s2 = emit (E_Write a mint maxt) s1 in
                  case Write_r x (now s1) of
                    (ident, Some err) \<Rightarrow> (Returns ([], Some (Wrap err ''compactor write'')), s2)
                  | (ident, None) \<Rightarrow>
                      (let s3 = emit (E_ReadFromDir a ident) s2 in
                       case ReadFromDir_r x (now s2) of
                         Some err \<Rightarrow> (Returns ([], Some (Wrap err ''metadata read'')), s3)
                       | None \<Rightarrow>
                           (let s4 = emit (E_WriteToDir a ident) s3 in
                            case WriteToDir_r x (now s3) of
                              Some err \<Rightarrow>
                                (Returns ([], Some (Wrap err ''metadata write'')), s4)
                            | None \<Rightarrow> (Returns ([ident], None), s4))))))"

definition TSDBWriter_Close :: "ext \<Rightarrow> nat \<Rightarrow> world \<Rightarrow> error option outcome \<times> world" where
  "TSDBWriter_Close x a s0 =
     (let s = emit (E_Close a) s0;
          s1 = emit (E_RemoveAll a (if a < length (store s) then tmpDir (store s ! a) else [])) s
      in case head_of s1 a of
           None \<Rightarrow> (Panics, s1)
         | Some h \<Rightarrow> (Returns (HeadClose_r x (now s1)), emit (E_HeadClose a) s1))"

section \<open>Append handles (multi.go and the head's appender)\<close>

text \<open>The four methods of \<open>errAppender\<close>.\<close>

definition errAppender_AppendExemplar ::
    "error option \<Rightarrow> SeriesRef \<Rightarrow> Labels \<Rightarrow> Exemplar \<Rightarrow> SeriesRef \<times> error option" where
  "errAppender_AppendExemplar err ref l e = (0, err)"

definition errAppender_Append ::
    "error option \<Rightarrow> SeriesRef \<Rightarrow> Labels \<Rightarrow> int64 \<Rightarrow> float64 \<Rightarrow> SeriesRef \<times> error option" where
  "errAppender_Append err ref l t v = (0, err)"

definition errAppender_Commit :: "error option \<Rightarrow> error option" where
  "errAppender_Commit err = err"

definition errAppender_Rollback :: "error option \<Rightarrow> error option" where
  "errAppender_Rollback err = err"

text \<open>
  A method call on a handle is recorded in the trace and then dispatched on the handle's
  dynamic type. The head's appender is library code: its answer comes from \<open>ext\<close>, and a
  sample it accepts is added to the head.
\<close>

fun Appender_Append ::
    "ext \<Rightarrow> Appender \<Rightarrow> SeriesRef \<Rightarrow> Labels \<Rightarrow> int64 \<Rightarrow> float64 \<Rightarrow> world
      \<Rightarrow> (SeriesRef \<times> error option) \<times> world" where
  "Appender_Append x (errAppender err) ref l t v s =
     (errAppender_Append err ref l t v, emit (E_Append (errAppender err) ref l t v) s)"
| "Appender_Append x (headAppender a) ref l t v s =
     (let s1 = emit (E_Append (headAppender a) ref l t v) s in
      case Append_r x (now s) of
        (r, Some err) \<Rightarrow> ((r, Some err), s1)
      | (r, None) \<Rightarrow>
          ((r, None),
           update_writer a
             (\<lambda>w. w\<lparr>head := map_option (\<lambda>h. h\<lparr>appended := appended h @ [(l, t, v)]\<rparr>) (head w)\<rparr>)
             s1))"

fun Appender_AppendExemplar ::
    "ext \<Rightarrow> Appender \<Rightarrow> SeriesRef \<Rightarrow> Labels \<Rightarrow> Exemplar \<Rightarrow> world
      \<Rightarrow> (SeriesRef \<times> error option) \<times> world" where
  "Appender_AppendExemplar x (errAppender err) ref l e s =
     (errAppender_AppendExemplar err ref l e, emit (E_AppendExemplar (errAppender err) ref l e) s)"
| "Appender_AppendExemplar x (headAppender a) ref l e s =
     (AppendExemplar_r x (now s), emit (E_AppendExemplar (headAppender a) ref l e) s)"

fun Appender_Commit :: "ext \<Rightarrow> Appender \<Rightarrow> world \<Rightarrow> error option \<times> world" where
  "Appender_Commit x (errAppender err) s =
     (errAppender_Commit err, emit (E_Commit (errAppender err)) s)"
| "Appender_Commit x (headAppender a) s =
     (Commit_r x (now s), emit (E_Commit (headAppender a)) s)"

fun Appender_Rollback :: "ext \<Rightarrow> Appender \<Rightarrow> world \<Rightarrow> error option \<times> world" where
  "Appender_Rollback x (errAppender err) s =
     (errAppender_Rollback err, emit (E_Rollback (errAppender err)) s)"
| "Appender_Rollback x (headAppender a) s =
     (Rollback_r x (now s), emit (E_Rollback (headAppender a)) s)"

section \<open>The coordinator (multi.go)\<close>

text \<open>
  \<open>MultiWriter\<close> without its logger. The two Go maps are association lists with one entry
  per key; \<open>m[k] = v\<close> is \<open>AList.update\<close>, \<open>m[k]\<close> with its \<open>ok\<close> flag is \<open>map_of\<close>, and a
  \<open>range\<close> over the map visits the values in the order \<open>range_order\<close> gives.
\<close>

record MultiWriter =
  blocks :: "(Range \<times> nat) list"
  activeAppenders :: "(Range \<times> Appender) list"
  mdir :: string
  sizeMillis :: int64
  mlabels :: Labels

definition NewMultiWriter :: "string \<Rightarrow> int64 \<Rightarrow> Labels \<Rightarrow> MultiWriter" where
  "NewMultiWriter d width lbls =
     \<lparr>blocks = [], activeAppenders = [], mdir = d, sizeMillis = width, mlabels = lbls\<rparr>"

definition range_values :: "ext \<Rightarrow> world \<Rightarrow> ('k \<times> 'v) list \<Rightarrow> 'v list" where
  "range_values x s m =
     List.map_filter (\<lambda>i. if i < length m then Some (snd (m ! i)) else None)
       (range_order x (now s) [0..<length m])"

definition getOrCreate ::
    "ext \<Rightarrow> int64 \<Rightarrow> MultiWriter \<Rightarrow> world \<Rightarrow> Appender outcome \<times> MultiWriter \<times> world" where
  "getOrCreate x t w s =
     (case rangeKey t (sizeMillis w) of
        None \<Rightarrow> (Panics, w, s)
      | Some hash \<Rightarrow>
          (case map_of (activeAppenders w) hash of
             Some a \<Rightarrow> (Returns a, w, s)
           | None \<Rightarrow>
               (case NewTSDBWriter x (mdir w) (mlabels w) s of
                  ((nw, Some err), s1) \<Rightarrow>
                    (Returns (errAppender (Some (Wrap err ''new tsdb writer''))), w, s1)
                | ((nw, None), s1) \<Rightarrow>
                    (let w1 = w\<lparr>blocks := AList.update hash nw (blocks w)\<rparr> in
                     case TSDBWriter_Appender nw s1 of
                       Panics \<Rightarrow> (Panics, w1, s1)
                     | Returns a \<Rightarrow>
                         (Returns a,
                          w1\<lparr>activeAppenders := AList.update hash a (activeAppenders w1)\<rparr>,
                          s1)))))"

definition MultiWriter_AppendExemplar ::
    "ext \<Rightarrow> SeriesRef \<Rightarrow> Labels \<Rightarrow> Exemplar \<Rightarrow> MultiWriter \<Rightarrow> world
      \<Rightarrow> (SeriesRef \<times> error option) outcome \<times> MultiWriter \<times> world" where
  "MultiWriter_AppendExemplar x ref l e w s =
     (case getOrCreate x (Ts e) w s of
        (Panics, w1, s1) \<Rightarrow> (Panics, w1, s1)
      | (Returns a, w1, s1) \<Rightarrow>
          (case Appender_AppendExemplar x a ref l e s1 of (r, s2) \<Rightarrow> (Returns r, w1, s2)))"

definition MultiWriter_Append ::
    "ext \<Rightarrow> SeriesRef \<Rightarrow> Labels \<Rightarrow> int64 \<Rightarrow> float64 \<Rightarrow> MultiWriter \<Rightarrow> world
      \<Rightarrow> (SeriesRef \<times> error option) outcome \<times> MultiWriter \<times> world" where
  "MultiWriter_Append x ref l t v w s =
     (case getOrCreate x t w s of
        (Panics, w1, s1) \<Rightarrow> (Panics, w1, s1)
      | (Returns a, w1, s1) \<Rightarrow>
          (case Appender_Append x a ref l t v s1 of (r, s2) \<Rightarrow> (Returns r, w1, s2)))"

fun Commit_loop :: "ext \<Rightarrow> Appender list \<Rightarrow> multiError \<Rightarrow> world \<Rightarrow> multiError \<times> world" where
  "Commit_loop x [] merr s = (merr, s)"
| "Commit_loop x (a # as) merr s =
     (case Appender_Commit x a s of (err, s1) \<Rightarrow> Commit_loop x as (Add merr err) s1)"

definition MultiWriter_Commit :: "ext \<Rightarrow> MultiWriter \<Rightarrow> world \<Rightarrow> error option \<times> world" where
  "MultiWriter_Commit x w s =
     (case Commit_loop x (range_values x s (activeAppenders w)) NewMulti s of
        (merr, s1) \<Rightarrow> (Err merr, s1))"

fun Rollback_loop :: "ext \<Rightarrow> Appender list \<Rightarrow> multiError \<Rightarrow> world \<Rightarrow> multiError \<times> world" where
  "Rollback_loop x [] merr s = (merr, s)"
| "Rollback_loop x (a # as) merr s =
     (case Appender_Rollback x a s of (err, s1) \<Rightarrow> Rollback_loop x as (Add merr err) s1)"

definition MultiWriter_Rollback :: "ext \<Rightarrow> MultiWriter \<Rightarrow> world \<Rightarrow> error option \<times> world" where
  "MultiWriter_Rollback x w s =
     (case Rollback_loop x (range_values x s (activeAppenders w)) NewMulti s of
        (merr, s1) \<Rightarrow> (Err merr, s1))"

text \<open>
  The loop of \<open>Flush\<close>. A \<open>nil\<close> slice and an empty slice are both the empty list.
\<close>

fun Flush_loop ::
    "ext \<Rightarrow> nat list \<Rightarrow> ULID list \<Rightarrow> world \<Rightarrow> (ULID list \<times> error option) outcome \<times> world" where
  "Flush_loop x [] ids s = (Returns (ids, None), s)"
| "Flush_loop x (b # bs) ids s =
     (case TSDBWriter_Flush x b s of
        (Panics, s1) \<Rightarrow> (Panics, s1)
      | (Returns (ident, Some err), s1) \<Rightarrow> (Returns ([], Some err), s1)
      | (Returns (ident, None), s1) \<Rightarrow> Flush_loop x bs (ids @ ident) s1)"

definition MultiWriter_Flush ::
    "ext \<Rightarrow> MultiWriter \<Rightarrow> world \<Rightarrow> (ULID list \<times> error option) outcome \<times> world" where
  "MultiWriter_Flush x w s = Flush_loop x (range_values x s (blocks w)) [] s"

fun Close_loop :: "ext \<Rightarrow> nat list \<Rightarrow> multiError \<Rightarrow> world \<Rightarrow> multiError outcome \<times> world" where
  "Close_loop x [] merr s = (Returns merr, s)"
| "Close_loop x (b # bs) merr s =
     (case TSDBWriter_Close x b s of
        (Panics, s1) \<Rightarrow> (Panics, s1)
      | (Returns err, s1) \<Rightarrow> Close_loop x bs (Add merr err) s1)"

definition MultiWriter_Close :: "ext \<Rightarrow> MultiWriter \<Rightarrow> world \<Rightarrow> error option outcome \<times> world" where
  "MultiWriter_Close x w s =
     (case Close_loop x (range_values x s (blocks w)) NewMulti s of
        (Panics, s1) \<Rightarrow> (Panics, s1)
      | (Returns merr, s1) \<Rightarrow> (Returns (Err merr), s1))"

section \<open>The import pipeline (import.go)\<close>

text \<open>
  \<open>textparse.Entry\<close>, and what one successful \<open>p.Next()\<close> yields together with what
  \<open>p.Metric\<close> and \<open>p.Series\<close> give for it: the label set, the optional timestamp (a
  \<open>*int64\<close>, \<open>None\<close> for \<open>nil\<close>) and the value. A parser is the list of entries \<open>Next\<close>
  yields and the error it returns after them, \<open>io.EOF\<close> at a clean end of the input.
\<close>

datatype Entry = EntryInvalid | EntryType | EntryHelp | EntrySeries | EntryComment | EntryUnit

datatype item = Item Entry Labels "int64 option" float64

text \<open>
  The target of an import: a \<open>blocks.Writer\<close> with the append session \<open>w.Appender(ctx)\<close>
  gives, as the four methods \<open>Import\<close> calls, over the target's state. \<open>wAppend\<close> and
  \<open>wCommit\<close> are methods of the session, \<open>wFlush\<close> and \<open>wClose\<close> of the writer.
\<close>

record 's Writer =
  wAppend :: "SeriesRef \<Rightarrow> Labels \<Rightarrow> int64 \<Rightarrow> float64 \<Rightarrow> 's
                \<Rightarrow> (SeriesRef \<times> error option) outcome \<times> 's"
  wCommit :: "'s \<Rightarrow> error option outcome \<times> 's"
  wFlush :: "'s \<Rightarrow> (ULID list \<times> error option) outcome \<times> 's"
  wClose :: "'s \<Rightarrow> error option outcome \<times> 's"

text \<open>The calls \<open>Import\<close> makes on its target, in order.\<close>

datatype call =
    Call_Append SeriesRef Labels int64 float64
  | Call_Commit
  | Call_Flush
  | Call_Close

text \<open>
  The \<open>for\<close> loop: it ends by \<open>break\<close> at \<open>io.EOF\<close>, by a \<open>return nil, err\<close>, or by a
  panic of the target.
\<close>

datatype loop_exit = Break | Return_err error | Panic

fun Import_loop ::
    "'s Writer \<Rightarrow> item list \<Rightarrow> error \<Rightarrow> SeriesRef \<Rightarrow> 's \<Rightarrow> call list
      \<Rightarrow> loop_exit \<times> 's \<times> call list" where
  "Import_loop W [] fin ref s cs =
     (if fin = io_EOF then (Break, s, cs) else (Return_err (Wrap fin ''parse''), s, cs))"
| "Import_loop W (Item e l ts v # p) fin ref s cs =
     (if e \<noteq> EntrySeries then Import_loop W p fin ref s cs
      else case ts of
        None \<Rightarrow> (Return_err (Errorf ''expected timestamp for series %v, got none'' l), s, cs)
      | Some t \<Rightarrow>
          (case wAppend W ref l t v s of
             (Panics, s1) \<Rightarrow> (Panic, s1, cs @ [Call_Append ref l t v])
           | (Returns (ref1, Some err), s1) \<Rightarrow>
               (Return_err (Wrap err ''add sample''), s1, cs @ [Call_Append ref l t v])
           | (Returns (ref1, None), s1) \<Rightarrow>
               Import_loop W p fin ref1 s1 (cs @ [Call_Append ref l t v])))"

text \<open>
  The body of \<open>Import\<close> up to its \<open>return\<close>: the values of the named results \<open>ids\<close> and
  \<open>err\<close> when the deferred function starts.
\<close>

definition Import_body ::
    "'s Writer \<Rightarrow> item list \<Rightarrow> error \<Rightarrow> 's
      \<Rightarrow> (ULID list \<times> error option) outcome \<times> 's \<times> call list" where
  "Import_body W p fin s0 =
     (case Import_loop W p fin 0 s0 [] of
        (Panic, s, cs) \<Rightarrow> (Panics, s, cs)
      | (Return_err err, s, cs) \<Rightarrow> (Returns ([], Some err), s, cs)
      | (Break, s, cs) \<Rightarrow>
          (case wCommit W s of
             (Panics, s1) \<Rightarrow> (Panics, s1, cs @ [Call_Commit])
           | (Returns (Some err), s1) \<Rightarrow>
               (Returns ([], Some (Wrap err ''commit'')), s1, cs @ [Call_Commit])
           | (Returns None, s1) \<Rightarrow>
               (case wFlush W s1 of
                  (Panics, s2) \<Rightarrow> (Panics, s2, cs @ [Call_Commit, Call_Flush])
                | (Returns (ids, Some err), s2) \<Rightarrow>
                    (Returns ([], Some (Wrap err ''flush'')), s2, cs @ [Call_Commit, Call_Flush])
                | (Returns (ids, None), s2) \<Rightarrow>
                    (Returns (ids, None), s2, cs @ [Call_Commit, Call_Flush]))))"

text \<open>
  \<open>Import\<close>: the body, then the deferred function, which closes the target and replaces
  \<open>err\<close> by the combination of \<open>err\<close> and the error of \<open>Close\<close>; it leaves \<open>ids\<close> as the
  body set it. A panic of the body still runs the deferred function and then goes on.
\<close>

definition Import ::
    "'s Writer \<Rightarrow> item list \<Rightarrow> error \<Rightarrow> 's
      \<Rightarrow> (ULID list \<times> error option) outcome \<times> 's \<times> call list" where
  "Import W p fin s0 =
     (case Import_body W p fin s0 of
        (body, s1, cs) \<Rightarrow>
          (case wClose W s1 of
             (Panics, s2) \<Rightarrow> (Panics, s2, cs @ [Call_Close])
           | (Returns cerr, s2) \<Rightarrow>
               (case body of
                  Panics \<Rightarrow> (Panics, s2, cs @ [Call_Close])
                | Returns (ids, err) \<Rightarrow>
                    (Returns (ids, Err (Add (Add NewMulti err) cerr)), s2, cs @ [Call_Close]))))"

text \<open>
  The coordinator as a target: \<open>MultiWriter.Appender\<close> returns the coordinator itself,
  so the session's methods are the coordinator's.
\<close>

definition MultiWriter_Writer :: "ext \<Rightarrow> (MultiWriter \<times> world) Writer" where
  "MultiWriter_Writer x =
     \<lparr>wAppend = (\<lambda>ref l t v (w, s).
          case MultiWriter_Append x ref l t v w s of (r, w1, s1) \<Rightarrow> (r, (w1, s1))),
      wCommit = (\<lambda>(w, s). case MultiWriter_Commit x w s of (r, s1) \<Rightarrow> (Returns r, (w, s1))),
      wFlush = (\<lambda>(w, s). case MultiWriter_Flush x w s of (r, s1) \<Rightarrow> (r, (w, s1))),
      wClose = (\<lambda>(w, s). case MultiWriter_Close x w s of (r, s1) \<Rightarrow> (r, (w, s1)))\<rparr>"

section \<open>Runs of the coordinator\<close>

text \<open>
  The public operations of the coordinator, and the state after a sequence of them,
  whatever each returned.
\<close>

datatype operation =
    Op_Append SeriesRef Labels int64 float64
  | Op_AppendExemplar SeriesRef Labels Exemplar
  | Op_Commit
  | Op_Rollback
  | Op_Flush
  | Op_Close

fun step :: "ext \<Rightarrow> operation \<Rightarrow> MultiWriter \<times> world \<Rightarrow> MultiWriter \<times> world" where
  "step x (Op_Append ref l t v) (w, s) = snd (MultiWriter_Append x ref l t v w s)"
| "step x (Op_AppendExemplar ref l e) (w, s) = snd (MultiWriter_AppendExemplar x ref l e w s)"
| "step x Op_Commit (w, s) = (w, snd (MultiWriter_Commit x w s))"
| "step x Op_Rollback (w, s) = (w, snd (MultiWriter_Rollback x w s))"
| "step x Op_Flush (w, s) = (w, snd (MultiWriter_Flush x w s))"
| "step x Op_Close (w, s) = (w, snd (MultiWriter_Close x w s))"

definition run :: "ext \<Rightarrow> operation list \<Rightarrow> MultiWriter \<times> world \<Rightarrow> MultiWriter \<times> world" where
  "run x ops st = fold (step x) ops st"

section \<open>Concrete libraries for the examples\<close>

text \<open>
  A library in which every call succeeds, appends return reference 1, the compactor
  names its block after the position of the call, and maps are visited in insertion order;
  and the empty world.
\<close>

definition ext_ok :: ext where
  "ext_ok =
     \<lparr>TempDir_r = (\<lambda>n. (''/tmp/head'', None)),
      NewHead_r = (\<lambda>n. None),
      Init_r = (\<lambda>n. None),
      Append_r = (\<lambda>n. (1, None)),
      AppendExemplar_r = (\<lambda>n. (1, None)),
      Commit_r = (\<lambda>n. None),
      Rollback_r = (\<lambda>n. None),
      NewLeveledCompactor_r = (\<lambda>n. None),
      Write_r = (\<lambda>n. (of_nat n, None)),
      ReadFromDir_r = (\<lambda>n. None),
      WriteToDir_r = (\<lambda>n. None),
      HeadClose_r = (\<lambda>n. None),
      range_order = (\<lambda>n ks. ks)\<rparr>"

definition world0 :: world where
  "world0 = \<lparr>store = [], trace = []\<rparr>"

text \<open>
  A library whose \<open>ioutil.TempDir\<close> always fails, and one whose first call (the event at
  position 0) fails and whose later calls succeed.
\<close>

definition ext_no_tmp :: ext where
  "ext_no_tmp = ext_ok\<lparr>TempDir_r := (\<lambda>n. ([], Some (New ''disk full'')))\<rparr>"

definition ext_retry :: ext where
  "ext_retry = ext_ok\<lparr>TempDir_r :=
     (\<lambda>n. if n = 0 then ([], Some (New ''disk full'')) else (''/tmp/head'', None))\<rparr>"

text \<open>
  A coordinator with one-hour buckets, a label set, a freshly created builder, and the
  same builder after one accepted sample.
\<close>

definition mw0 :: MultiWriter where
  "mw0 = NewMultiWriter ''out'' 3600000 []"

definition metric :: Labels where
  "metric = [(''__name__'', ''up'')]"

definition fresh_builder :: world where
  "fresh_builder = snd (NewTSDBWriter ext_ok ''out'' [] world0)"

definition one_sample :: world where
  "one_sample = snd (Appender_Append ext_ok (headAppender 0) 0 metric 1000 0 fresh_builder)"

text \<open>
  A library whose \<open>head.Close\<close> fails, and an input whose third entry is a series entry
  without a timestamp.
\<close>

definition ext_close_fails :: ext where
  "ext_close_fails = ext_ok\<lparr>HeadClose_r := (\<lambda>n. Some (New ''close failed''))\<rparr>"

definition p_missing :: "item list" where
  "p_missing =
     [Item EntrySeries metric (Some 1000) 0, Item EntryComment [] None 0,
      Item EntrySeries metric None 0, Item EntrySeries metric (Some 2000) 0]"

text \<open>
  A coordinator with three buckets of one sample each, built from 15 events; a library
  whose second \<open>Commit\<close> after them fails, and one whose second block write fails.
\<close>

definition ext_commit2 :: ext where
  "ext_commit2 = ext_ok\<lparr>Commit_r := (\<lambda>n. if n = 16 then Some (New ''commit failed'') else None)\<rparr>"

definition ext_flush2 :: ext where
  "ext_flush2 = ext_ok\<lparr>Write_r :=
     (\<lambda>n. if n = 22 then (0, Some (New ''disk full'')) else (of_nat n, None))\<rparr>"

definition three_buckets :: "MultiWriter \<times> world" where
  "three_buckets =
     run ext_ok
       [Op_Append 0 metric 100 0, Op_Append 0 metric 3700000 0, Op_Append 0 metric 7300000 0]
       (mw0, world0)"

text \<open>
  An input of two samples an hour apart, and a library in which the second block write
  of their import fails and every \<open>head.Close\<close> fails.
\<close>

definition p_two :: "item list" where
  "p_two = [Item EntrySeries metric (Some 100) 0, Item EntrySeries metric (Some 3700000) 0]"

definition ext_flush_close :: ext where
  "ext_flush_close = ext_ok\<lparr>
     Write_r := (\<lambda>n. if n = 19 then (0, Some (New ''disk full'')) else (of_nat n, None)),
     HeadClose_r := (\<lambda>n. Some (New ''close failed''))\<rparr>"

section \<open>Auxiliary functions of the proofs\<close>

text \<open>The errors \<open>Add\<close> appends for one argument.\<close>

fun errs_of :: "error option \<Rightarrow> error list" where
  "errs_of None = []"
| "errs_of (Some (nonNilMultiError e errs)) = e # errs"
| "errs_of (Some err) = [err]"

text \<open>What the \<open>Commit\<close> of each handle returns when they are called in turn.\<close>

fun Commit_errs :: "ext \<Rightarrow> Appender list \<Rightarrow> world \<Rightarrow> error option list" where
  "Commit_errs x [] s = []"
| "Commit_errs x (a # as) s =
     (case Appender_Commit x a s of (err, s1) \<Rightarrow> err # Commit_errs x as s1)"

text \<open>
  What the \<open>Flush\<close> of each builder returns when they are called in turn, whether a
  result is a success, the identifiers of a result, and the builders on which a trace
  calls \<open>Flush\<close>.
\<close>

fun Flush_results :: "ext \<Rightarrow> nat list \<Rightarrow> world \<Rightarrow> (ULID list \<times> error option) outcome list" where
  "Flush_results x [] s = []"
| "Flush_results x (b # bs) s =
     (case TSDBWriter_Flush x b s of (r, s1) \<Rightarrow> r # Flush_results x bs s1)"

fun flush_ok :: "(ULID list \<times> error option) outcome \<Rightarrow> bool" where
  "flush_ok (Returns (ids, None)) = True"
| "flush_ok r = False"

fun ids_of :: "(ULID list \<times> error option) outcome \<Rightarrow> ULID list" where
  "ids_of (Returns (ids, err)) = ids"
| "ids_of Panics = []"

fun flushed :: "event list \<Rightarrow> nat list" where
  "flushed [] = []"
| "flushed (E_Flush a # es) = a # flushed es"
| "flushed (e # es) = flushed es"

text \<open>
  The builders a trace creates (the addresses \<open>NewTSDBWriter\<close> returned without an error)
  and the builders on which it calls \<open>Close\<close>, in order.
\<close>

fun created :: "event list \<Rightarrow> nat list" where
  "created [] = []"
| "created (E_NewTSDBWriter a None # es) = a # created es"
| "created (e # es) = created es"

fun closed :: "event list \<Rightarrow> nat list" where
  "closed [] = []"
| "closed (E_Close a # es) = a # closed es"
| "closed (e # es) = closed es"

text \<open>The handle of a builder, entry by entry.\<close>

definition handles :: "(Range \<times> nat) list \<Rightarrow> (Range \<times> Appender) list" where
  "handles bl = map (\<lambda>(k, a). (k, headAppender a)) bl"

text \<open>
  The builder at an address has a head; and a step of the world that creates no builder,
  closes none and leaves every head in place.
\<close>

definition has_head :: "world \<Rightarrow> nat \<Rightarrow> bool" where
  "has_head s a \<longleftrightarrow> head_of s a \<noteq> None"

definition quiet :: "world \<Rightarrow> world \<Rightarrow> bool" where
  "quiet s s1 \<longleftrightarrow>
     created (trace s1) = created (trace s) \<and> closed (trace s1) = closed (trace s)
     \<and> (\<forall>a. has_head s a \<longrightarrow> has_head s1 a)"

text \<open>
  The coordinator and the world fit: the handles are those of the registered builders,
  the registered builders are the created ones, each created once and with a head, and
  none is closed yet.
\<close>

definition coordinator_ok :: "MultiWriter \<Rightarrow> world \<Rightarrow> bool" where
  "coordinator_ok w s \<longleftrightarrow>
     activeAppenders w = handles (blocks w)
     \<and> map snd (blocks w) = created (trace s)
     \<and> distinct (created (trace s))
     \<and> (\<forall>a\<in>set (created (trace s)). has_head s a)
     \<and> closed (trace s) = []"

section \<open>Bucketing: proofs\<close>

lemma sint_small:
  fixes k :: int
  assumes "0 \<le> k" "k < 2 ^ 63"
  shows "sint (word_of_int k :: int64) = k"
  using assms by (simp add: sint_sbintrunc' signed_take_bit_int_eq_self)

lemma sint_go_div_nonneg:
  assumes "0 \<le> sint a" "0 < sint b"
  shows "sint (go_div a b) = sint a div sint b"
proof -
  have eq: "sint a sdiv sint b = sint a div sint b"
    using assms by (simp add: signed_divide_int_def sgn_if)
  have "sint a div sint b \<le> sint a"
    using assms(1) int_div_le_self by force
  moreover have "sint a < 2 ^ 63"
    using sint_lt [of a] by simp
  moreover have "0 \<le> sint a div sint b"
    using assms by (simp add: pos_imp_zdiv_nonneg_iff)
  ultimately show ?thesis
    unfolding go_div_def eq by (intro sint_small) auto
qed

lemma sint_maxt:
  assumes "0 \<le> sint t" "0 < sint w" "sint t div sint w * sint w + sint w < 2 ^ 63"
  shows "sint (go_div t w * w + w) = sint t div sint w * sint w + sint w"
    and "sint (go_div t w * w) = sint t div sint w * sint w"
proof -
  let ?q = "sint t div sint w"
  have q0: "0 \<le> ?q"
    using assms by (simp add: pos_imp_zdiv_nonneg_iff)
  have qw0: "0 \<le> ?q * sint w"
    using q0 assms by simp
  have "go_div t w * w = word_of_int (sint (go_div t w) * sint w)"
    by simp
  then have b: "go_div t w * w = word_of_int (?q * sint w)"
    by (simp only: sint_go_div_nonneg [OF assms(1,2)])
  show "sint (go_div t w * w) = ?q * sint w"
    unfolding b using qw0 assms by (intro sint_small) auto
  have a: "go_div t w * w + w = word_of_int (?q * sint w + sint w)"
    by (simp add: b)
  show "sint (go_div t w * w + w) = ?q * sint w + sint w"
    unfolding a using qw0 assms by (intro sint_small) auto
qed

lemma bucket_bounds:
  fixes t w :: int
  assumes "0 < w"
  shows "t div w * w \<le> t" "t < t div w * w + w"
proof -
  have "t = t div w * w + t mod w"
    by simp
  moreover have "0 \<le> t mod w" "t mod w < w"
    using assms by simp_all
  ultimately show "t div w * w \<le> t" "t < t div w * w + w"
    by linarith+
qed

text \<open>
  C1, as amended. For a width \<open>w > 0\<close> and timestamps \<open>t, t' \<ge> 0\<close> whose bucket end
  \<open>floor(t/w) * w + w\<close> still fits \<open>int64\<close>, the range built by \<open>rangeForTimestamp\<close> and
  \<open>getOrCreate\<close> is the half-open interval \<open>[Start, End)\<close> with \<open>Start \<le> t < End\<close> and
  \<open>End - Start = w\<close>, and \<open>t\<close> and \<open>t'\<close> get the same range iff
  \<open>floor(t/w) = floor(t'/w)\<close>. Nothing is stated here about negative timestamps or about
  buckets whose end overflows.
\<close>

theorem rangeKey_bucket:
  assumes w: "0 < sint w"
    and t: "0 \<le> sint t" "sint t div sint w * sint w + sint w < 2 ^ 63"
    and t': "0 \<le> sint t'" "sint t' div sint w * sint w + sint w < 2 ^ 63"
  shows "(\<exists>r. rangeKey t w = Some r \<and> sint (Start r) \<le> sint t \<and> sint t < sint (End r)
            \<and> sint (End r) - sint (Start r) = sint w \<and> End r - Start r = w)
       \<and> (rangeKey t w = rangeKey t' w \<longleftrightarrow> sint t div sint w = sint t' div sint w)"
proof -
  have w0: "w \<noteq> 0"
    using w by auto
  have k: "rangeKey t w = Some \<lparr>Start = go_div t w * w + w - w, End = go_div t w * w + w\<rparr>"
    "rangeKey t' w = Some \<lparr>Start = go_div t' w * w + w - w, End = go_div t' w * w + w\<rparr>"
    using w0 by (simp_all add: rangeKey_def rangeForTimestamp_def)
  note m = sint_maxt [OF t(1) w t(2)] sint_maxt [OF t'(1) w t'(2)]
  have first: "\<exists>r. rangeKey t w = Some r \<and> sint (Start r) \<le> sint t \<and> sint t < sint (End r)
            \<and> sint (End r) - sint (Start r) = sint w \<and> End r - Start r = w"
    using bucket_bounds [OF w, of "sint t"] by (simp add: k m)
  have "rangeKey t w = rangeKey t' w \<longleftrightarrow>
        sint (go_div t w * w + w) = sint (go_div t' w * w + w)" (is "?L \<longleftrightarrow> ?R")
  proof
    assume ?L
    then have "go_div t w * w + w = go_div t' w * w + w"
      by (simp add: k)
    then show ?R
      by simp
  next
    assume ?R
    then have "go_div t w * w + w = go_div t' w * w + w"
      by (rule signed_word_eqI)
    then show ?L
      by (simp add: k)
  qed
  also have "\<dots> \<longleftrightarrow> sint t div sint w = sint t' div sint w"
    using w by (simp add: m)
  finally show ?thesis
    using first by blast
qed

text \<open>
  The theorem at the bucket-split scenario: width 3600000 ms, samples at 3700000 and 100.
\<close>

theorem rangeKey_bucket_witness:
  "(\<exists>r. rangeKey 3700000 3600000 = Some r \<and> sint (Start r) \<le> 3700000 \<and> 3700000 < sint (End r)
       \<and> sint (End r) - sint (Start r) = 3600000 \<and> End r - Start r = 3600000)
   \<and> (rangeKey 3700000 3600000 = rangeKey 100 3600000
        \<longleftrightarrow> (3700000::int) div 3600000 = 100 div 3600000)"
  using rangeKey_bucket [of 3600000 3700000 100] by simp

text \<open>
  C1 as stated fails. At \<open>t = -5\<close>, \<open>w = 10\<close> the truncating division gives the range
  \<open>[0, 10)\<close>, which does not contain \<open>-5\<close>, and \<open>-5\<close> and \<open>5\<close> share that range although
  \<open>floor(-5/10) = -1\<close> and \<open>floor(5/10) = 0\<close>. At \<open>t = MaxInt64\<close>, \<open>w = 10\<close> the end of the
  bucket wraps around to a negative number, so \<open>t < End\<close> fails.
\<close>

theorem rangeKey_counterexample:
  "rangeKey (- 5) 10 = Some \<lparr>Start = 0, End = 10\<rparr>
   \<and> \<not> sint (0 :: int64) \<le> sint (- 5 :: int64)
   \<and> rangeKey (- 5) 10 = rangeKey 5 10 \<and> (- 5 :: int) div 10 \<noteq> 5 div 10
   \<and> rangeKey 9223372036854775807 10
       = Some \<lparr>Start = - 9223372036854775816, End = - 9223372036854775806\<rparr>
   \<and> \<not> sint (9223372036854775807 :: int64) < sint (- 9223372036854775806 :: int64)"
  by (simp add: rangeKey_def rangeForTimestamp_def go_div_def signed_divide_int_def)

section \<open>The world and the error list: basic facts\<close>

lemma trace_emit [simp]: "trace (emit e s) = trace s @ [e]"
  by (simp add: emit_def)

lemma store_emit [simp]: "store (emit e s) = store s"
  by (simp add: emit_def)

lemma now_emit [simp]: "now (emit e s) = Suc (now s)"
  by (simp add: now_def)

lemma head_of_emit [simp]: "head_of (emit e s) a = head_of s a"
  by (simp add: head_of_def)

lemma trace_update_writer [simp]: "trace (update_writer a f s) = trace s"
  by (simp add: update_writer_def)

lemma now_update_writer [simp]: "now (update_writer a f s) = now s"
  by (simp add: now_def)

lemma length_store_update_writer [simp]:
  "length (store (update_writer a f s)) = length (store s)"
  by (simp add: update_writer_def)

lemma head_of_update_writer:
  "head_of (update_writer a f s) b =
     (if b = a \<and> a < length (store s) then head (f (store s ! a)) else head_of s b)"
  by (simp add: update_writer_def head_of_def)

lemma NumSeries_0 [simp]: "NumSeries h = 0 \<longleftrightarrow> appended h = []"
  by (simp add: NumSeries_def)

lemma Add_eq: "Add es c = es @ errs_of c"
  by (cases "(es, c)" rule: Add.cases) simp_all

lemma errs_of_Nil: "errs_of c = [] \<longleftrightarrow> c = None"
  by (cases c rule: errs_of.cases) simp_all

lemma Err_None: "Err es = None \<longleftrightarrow> es = []"
  by (cases es) simp_all

section \<open>The single-bucket builder: proofs\<close>

text \<open>
  C8. Let \<open>h\<close> be the head of the builder at \<open>a\<close>. If no sample was ever appended to it,
  \<open>Flush\<close> returns no identifier and the error \<open>no series appended; aborting.\<close>, and does
  nothing but that: no compactor is created and no block is written. If the head holds a
  sample, \<open>Flush\<close> does not return that error. A \<open>Flush\<close> that succeeds had a sample.
\<close>

theorem TSDBWriter_Flush_empty_builder:
  assumes "head_of s a = Some h"
  shows "(appended h = [] \<longrightarrow>
            TSDBWriter_Flush x a s
              = (Returns ([], Some (New ''no series appended; aborting.'')), emit (E_Flush a) s))
       \<and> (appended h \<noteq> [] \<longrightarrow>
            (\<forall>ids. fst (TSDBWriter_Flush x a s)
                     \<noteq> Returns (ids, Some (New ''no series appended; aborting.''))))
       \<and> (\<forall>ids. fst (TSDBWriter_Flush x a s) = Returns (ids, None) \<longrightarrow> appended h \<noteq> [])"
  using assms
  by (auto simp: TSDBWriter_Flush_def Let_def split: option.splits prod.splits)

text \<open>
  The theorem at a builder as \<open>NewTSDBWriter\<close> returns it, and at the same builder after
  one sample.
\<close>

theorem TSDBWriter_Flush_empty_builder_witness:
  "head_of fresh_builder 0 = Some \<lparr>appended = []\<rparr>
   \<and> TSDBWriter_Flush ext_ok 0 fresh_builder
       = (Returns ([], Some (New ''no series appended; aborting.'')), emit (E_Flush 0) fresh_builder)
   \<and> head_of one_sample 0 = Some \<lparr>appended = [(metric, 1000, 0)]\<rparr>
   \<and> (\<forall>ids. fst (TSDBWriter_Flush ext_ok 0 one_sample)
              \<noteq> Returns (ids, Some (New ''no series appended; aborting.'')))"
proof -
  have h1: "head_of fresh_builder 0 = Some \<lparr>appended = []\<rparr>"
    by code_simp
  have h2: "head_of one_sample 0 = Some \<lparr>appended = [(metric, 1000, 0)]\<rparr>"
    by code_simp
  show ?thesis
    using TSDBWriter_Flush_empty_builder [OF h1, of ext_ok]
      TSDBWriter_Flush_empty_builder [OF h2, of ext_ok] h1 h2
    by simp
qed

lemma initHead_success:
  assumes "initHead x a s = (None, s1)" "a < length (store s)"
  shows "head_of s1 a = Some \<lparr>appended = []\<rparr>"
  using assms
  by (auto simp: initHead_def Let_def head_of_update_writer split: option.splits prod.splits)

lemma NewTSDBWriter_address:
  "NewTSDBWriter x d lbls s = ((nw, err), s1) \<Longrightarrow> nw = length (store s)"
  by (auto simp: NewTSDBWriter_def Let_def split: prod.splits)

lemma NewTSDBWriter_success:
  assumes "NewTSDBWriter x d lbls s = ((nw, None), s1)"
  shows "head_of s1 nw = Some \<lparr>appended = []\<rparr>"
  using assms
    initHead_success [of x "length (store s)"
      "s\<lparr>store := store s @ [\<lparr>dir = d, labels = lbls, head = None, tmpDir = []\<rparr>]\<rparr>"]
  by (auto simp: NewTSDBWriter_def Let_def split: prod.splits)

lemma NewTSDBWriter_trace:
  assumes "NewTSDBWriter x d lbls s = ((nw, err), s1)"
  shows "E_NewTSDBWriter nw err \<in> set (trace s1)" "length (store s1) = Suc (length (store s))"
  using assms
  by (auto simp: NewTSDBWriter_def initHead_def Let_def split: prod.splits option.splits)

section \<open>Routing: proofs\<close>

lemma getOrCreate_failure:
  assumes "rangeKey t (sizeMillis w) = Some hash"
    and "map_of (activeAppenders w) hash = None"
    and "NewTSDBWriter x (mdir w) (mlabels w) s = ((nw, Some err), s1)"
  shows "getOrCreate x t w s = (Returns (errAppender (Some (Wrap err ''new tsdb writer''))), w, s1)"
  using assms by (simp add: getOrCreate_def)

lemma getOrCreate_success:
  assumes "rangeKey t (sizeMillis w) = Some hash"
    and "map_of (activeAppenders w) hash = None"
    and "NewTSDBWriter x (mdir w) (mlabels w) s = ((nw, None), s1)"
  shows "getOrCreate x t w s =
           (Returns (headAppender nw),
            w\<lparr>blocks := AList.update hash nw (blocks w),
              activeAppenders := AList.update hash (headAppender nw) (activeAppenders w)\<rparr>,
            s1)"
  using assms NewTSDBWriter_success [OF assms(3)]
  by (simp add: getOrCreate_def TSDBWriter_Appender_def Let_def)

text \<open>
  C10. Let a timestamp \<open>t\<close> fall into a range \<open>hash\<close> that has no handle yet, and let
  \<open>NewTSDBWriter\<close> fail with \<open>err\<close>. Then \<open>getOrCreate\<close> returns an \<open>errAppender\<close> and leaves
  the coordinator as it was: neither map holds the handle, so \<open>Commit\<close>, \<open>Rollback\<close>,
  \<open>Flush\<close> and \<open>Close\<close> run as they would have run before. A later \<open>getOrCreate\<close> for a
  timestamp \<open>t'\<close> of the same range calls \<open>NewTSDBWriter\<close> again, on a new builder, and its
  result decides as on a first touch.
\<close>

theorem getOrCreate_creation_failure:
  assumes k: "rangeKey t (sizeMillis w) = Some hash"
    and n: "map_of (activeAppenders w) hash = None"
    and f: "NewTSDBWriter x (mdir w) (mlabels w) s = ((nw, Some err), s1)"
    and k': "rangeKey t' (sizeMillis w) = Some hash"
    and r: "NewTSDBWriter x (mdir w) (mlabels w) s1 = ((nw', err'), s2)"
  shows "getOrCreate x t w s = (Returns (errAppender (Some (Wrap err ''new tsdb writer''))), w, s1)
       \<and> MultiWriter_Commit x (fst (snd (getOrCreate x t w s))) = MultiWriter_Commit x w
       \<and> MultiWriter_Rollback x (fst (snd (getOrCreate x t w s))) = MultiWriter_Rollback x w
       \<and> MultiWriter_Flush x (fst (snd (getOrCreate x t w s))) = MultiWriter_Flush x w
       \<and> MultiWriter_Close x (fst (snd (getOrCreate x t w s))) = MultiWriter_Close x w
       \<and> nw' = Suc nw
       \<and> E_NewTSDBWriter nw' err' \<in> set (trace (snd (snd (getOrCreate x t' w s1))))
       \<and> getOrCreate x t' w s1 =
           (case err' of
              Some e \<Rightarrow> (Returns (errAppender (Some (Wrap e ''new tsdb writer''))), w, s2)
            | None \<Rightarrow>
                (Returns (headAppender nw'),
                 w\<lparr>blocks := AList.update hash nw' (blocks w),
                   activeAppenders := AList.update hash (headAppender nw') (activeAppenders w)\<rparr>,
                 s2))"
proof -
  have 1: "getOrCreate x t w s
             = (Returns (errAppender (Some (Wrap err ''new tsdb writer''))), w, s1)"
    by (rule getOrCreate_failure [OF k n f])
  have 2: "nw' = Suc nw"
    using NewTSDBWriter_address [OF f] NewTSDBWriter_address [OF r] NewTSDBWriter_trace(2) [OF f]
    by simp
  have 3: "getOrCreate x t' w s1 =
           (case err' of
              Some e \<Rightarrow> (Returns (errAppender (Some (Wrap e ''new tsdb writer''))), w, s2)
            | None \<Rightarrow>
                (Returns (headAppender nw'),
                 w\<lparr>blocks := AList.update hash nw' (blocks w),
                   activeAppenders := AList.update hash (headAppender nw') (activeAppenders w)\<rparr>,
                 s2))"
  proof (cases err')
    case None
    then show ?thesis
      using getOrCreate_success [OF k' n] r by simp
  next
    case (Some e)
    then show ?thesis
      using getOrCreate_failure [OF k' n] r by simp
  qed
  have 4: "E_NewTSDBWriter nw' err' \<in> set (trace (snd (snd (getOrCreate x t' w s1))))"
    using NewTSDBWriter_trace(1) [OF r] by (auto simp: 3 split: option.splits)
  show ?thesis
    using 2 3 4 by (simp add: 1)
qed

text \<open>
  The theorem where the first \<open>ioutil.TempDir\<close> fails and the second succeeds: the sample
  at 1000 gets an \<open>errAppender\<close> and leaves the coordinator empty, the sample at 2000, in
  the same bucket, gets the head appender of a second builder.
\<close>

theorem getOrCreate_creation_failure_witness:
  "getOrCreate ext_retry 1000 mw0 world0
     = (Returns (errAppender
          (Some (Wrap (Wrap (New ''disk full'') ''create temp dir'') ''new tsdb writer''))),
        mw0,
        \<lparr>store = [\<lparr>dir = ''out'', labels = [], head = None, tmpDir = []\<rparr>],
         trace = [E_TempDir 0,
                  E_NewTSDBWriter 0 (Some (Wrap (New ''disk full'') ''create temp dir''))]\<rparr>)
   \<and> fst (getOrCreate ext_retry 2000 mw0
        \<lparr>store = [\<lparr>dir = ''out'', labels = [], head = None, tmpDir = []\<rparr>],
         trace = [E_TempDir 0,
                  E_NewTSDBWriter 0 (Some (Wrap (New ''disk full'') ''create temp dir''))]\<rparr>)
     = Returns (headAppender 1)"
proof -
  let ?s1 = "\<lparr>store = [\<lparr>dir = ''out'', labels = [], head = None, tmpDir = []\<rparr>],
         trace = [E_TempDir 0,
                  E_NewTSDBWriter 0 (Some (Wrap (New ''disk full'') ''create temp dir''))]\<rparr>"
  have k: "rangeKey 1000 (sizeMillis mw0) = Some \<lparr>Start = 0, End = 3600000\<rparr>"
    by code_simp
  have n: "map_of (activeAppenders mw0) \<lparr>Start = 0, End = 3600000\<rparr> = None"
    by code_simp
  have f: "NewTSDBWriter ext_retry (mdir mw0) (mlabels mw0) world0
             = ((0, Some (Wrap (New ''disk full'') ''create temp dir'')), ?s1)"
    by code_simp
  have k': "rangeKey 2000 (sizeMillis mw0) = Some \<lparr>Start = 0, End = 3600000\<rparr>"
    by code_simp
  have "fst (NewTSDBWriter ext_retry (mdir mw0) (mlabels mw0) ?s1) = (1, None)"
    by code_simp
  then obtain s2 where r: "NewTSDBWriter ext_retry (mdir mw0) (mlabels mw0) ?s1 = ((1, None), s2)"
    by (cases "NewTSDBWriter ext_retry (mdir mw0) (mlabels mw0) ?s1") auto
  show ?thesis
    using getOrCreate_creation_failure [OF k n f k' r] by simp
qed

section \<open>The import pipeline: proofs\<close>



lemma errs_of_Some_nonempty: "errs_of (Some e) \<noteq> []"
  by (cases e) simp_all

lemma Import_loop_calls:
  "Import_loop W p fin ref s cs = (ex, s1, cs1) \<Longrightarrow>
     \<exists>as. cs1 = cs @ as \<and>
       (\<forall>c\<in>set as. \<exists>r l t v. c = Call_Append r l t v \<and> Item EntrySeries l (Some t) v \<in> set p)"
proof (induction p arbitrary: ref s cs)
  case Nil
  then show ?case by (auto split: if_splits)
next
  case (Cons i p)
  obtain e l ts v where i: "i = Item e l ts v" by (cases i)
  show ?case
  proof (cases "e = EntrySeries \<and> ts \<noteq> None")
    case False
    then show ?thesis
      using Cons.prems Cons.IH [of ref s cs] by (auto simp: i split: if_splits)
  next
    case True
    then obtain t where t: "ts = Some t" "e = EntrySeries" by auto
    obtain r s' where a: "wAppend W ref l t v s = (r, s')"
      by (cases "wAppend W ref l t v s")
    show ?thesis
    proof (cases "\<exists>ref1. r = Returns (ref1, None)")
      case False
      then have "cs1 = cs @ [Call_Append ref l t v]"
        using Cons.prems by (auto simp: i t a split: outcome.splits option.splits)
      then show ?thesis by (auto simp: i t)
    next
      case True
      then obtain ref1 where r: "r = Returns (ref1, None)" by auto
      have "Import_loop W p fin ref1 s' (cs @ [Call_Append ref l t v]) = (ex, s1, cs1)"
        using Cons.prems by (simp add: i t a r)
      from Cons.IH [OF this] obtain as where
        "cs1 = (cs @ [Call_Append ref l t v]) @ as"
        "\<forall>c\<in>set as. \<exists>r l t v. c = Call_Append r l t v \<and> Item EntrySeries l (Some t) v \<in> set p"
        by blast
      then have "cs1 = cs @ (Call_Append ref l t v # as) \<and>
         (\<forall>c\<in>set (Call_Append ref l t v # as). \<exists>r l t v. c = Call_Append r l t v \<and> Item EntrySeries l (Some t) v \<in> set (i # p))"
        by (auto simp: i t)
      then show ?thesis by blast
    qed
  qed
qed

lemma Import_loop_missing:
  "Item EntrySeries l None v \<in> set p \<Longrightarrow> fst (Import_loop W p fin ref s cs) \<noteq> Break"
proof (induction p arbitrary: ref s cs)
  case Nil
  then show ?case by simp
next
  case (Cons i p)
  obtain e l' ts v' where i: "i = Item e l' ts v'" by (cases i)
  show ?case
  proof (cases "i = Item EntrySeries l None v")
    case True
    then show ?thesis by simp
  next
    case False
    then have "Item EntrySeries l None v \<in> set p" using Cons.prems by simp
    note IH = Cons.IH [OF this]
    show ?thesis
      using IH by (auto simp: i split: option.splits outcome.splits prod.splits)
  qed
qed

lemma Import_loop_reach:
  "Import_loop W pre io_EOF ref s cs = (Break, s1, cs1) \<Longrightarrow>
   Import_loop W (pre @ Item EntrySeries l None v # post) fin ref s cs
     = (Return_err (Errorf ''expected timestamp for series %v, got none'' l), s1, cs1)"
proof (induction pre arbitrary: ref s cs)
  case Nil
  then show ?case by simp
next
  case (Cons i p)
  obtain e l' ts v' where i: "i = Item e l' ts v'" by (cases i)
  show ?case
    using Cons.prems Cons.IH
    by (auto simp: i split: option.splits outcome.splits prod.splits if_splits)
qed



lemma Err_Add_Some:
  "\<exists>a as. Err (Add (Add NewMulti (Some e)) c) = Some (nonNilMultiError a as)"
proof -
  obtain a as where "errs_of (Some e) = a # as"
    using errs_of_Some_nonempty [of e] by (cases "errs_of (Some e)") auto
  then show ?thesis
    by (simp add: Add_eq NewMulti_def)
qed

lemma Import_body_calls:
  assumes "Import_body W p fin s = (r, s1, cs)"
  shows "Call_Close \<notin> set cs"
    and "\<forall>ref l t v. Call_Append ref l t v \<in> set cs \<longrightarrow> Item EntrySeries l (Some t) v \<in> set p"
proof -
  obtain ex s' cs' where L: "Import_loop W p fin 0 s [] = (ex, s', cs')"
    by (cases "Import_loop W p fin 0 s []")
  from Import_loop_calls [OF L] have A:
    "\<forall>c\<in>set cs'. \<exists>r l t v. c = Call_Append r l t v \<and> Item EntrySeries l (Some t) v \<in> set p"
    by auto
  have "cs = cs' \<or> cs = cs' @ [Call_Commit] \<or> cs = cs' @ [Call_Commit, Call_Flush]"
    using assms
    by (auto simp: Import_body_def L split: loop_exit.splits outcome.splits prod.splits option.splits)
  then show "Call_Close \<notin> set cs"
    and "\<forall>ref l t v. Call_Append ref l t v \<in> set cs \<longrightarrow> Item EntrySeries l (Some t) v \<in> set p"
    using A by auto
qed

lemma Import_body_no_break:
  assumes "fst (Import_loop W p fin 0 s []) \<noteq> Break"
  shows "Call_Commit \<notin> set (snd (snd (Import_body W p fin s)))"
    and "Call_Flush \<notin> set (snd (snd (Import_body W p fin s)))"
    and "fst (Import_body W p fin s) = Panics
          \<or> (\<exists>e. fst (Import_body W p fin s) = Returns ([], Some e))"
proof -
  obtain ex s' cs' where L: "Import_loop W p fin 0 s [] = (ex, s', cs')"
    by (cases "Import_loop W p fin 0 s []")
  from Import_loop_calls [OF L] have A: "Call_Commit \<notin> set cs'" "Call_Flush \<notin> set cs'"
    by auto
  show "Call_Commit \<notin> set (snd (snd (Import_body W p fin s)))"
    and "Call_Flush \<notin> set (snd (snd (Import_body W p fin s)))"
    and "fst (Import_body W p fin s) = Panics
          \<or> (\<exists>e. fst (Import_body W p fin s) = Returns ([], Some e))"
    using assms A by (auto simp: Import_body_def L split: loop_exit.splits)
qed

lemma Import_calls:
  "snd (snd (Import W p fin s)) = snd (snd (Import_body W p fin s)) @ [Call_Close]"
  by (auto simp: Import_def split: prod.splits outcome.splits)

text \<open>
  C7. Let the input hold a series entry without a timestamp. Then, whatever the target
  does, \<open>Import\<close> calls neither \<open>Commit\<close> nor \<open>Flush\<close>, every \<open>Append\<close> it makes carries the
  timestamp of a series entry of the input (none is made up), and it returns no identifier
  and a non-nil error, unless the target panics. If the entries before that one are
  processed to their end, \<open>Import\<close> stops at it: the body returns the error
  \<open>expected timestamp for series ..., got none\<close> in the state those entries left, and
  \<open>Import\<close> returns it combined with the errors of \<open>Close\<close>.
\<close>

theorem Import_missing_timestamp:
  assumes "Item EntrySeries l None v \<in> set p"
  shows "Call_Commit \<notin> set (snd (snd (Import W p fin s)))
       \<and> Call_Flush \<notin> set (snd (snd (Import W p fin s)))
       \<and> (\<forall>ref l' t v'. Call_Append ref l' t v' \<in> set (snd (snd (Import W p fin s)))
             \<longrightarrow> Item EntrySeries l' (Some t) v' \<in> set p)
       \<and> (fst (Import W p fin s) = Panics
            \<or> (\<exists>e es. fst (Import W p fin s) = Returns ([], Some (nonNilMultiError e es))))
       \<and> (\<forall>pre post s1 cs1.
             p = pre @ Item EntrySeries l None v # post
             \<and> Import_loop W pre io_EOF 0 s [] = (Break, s1, cs1) \<longrightarrow>
             Import_body W p fin s
               = (Returns ([], Some (Errorf ''expected timestamp for series %v, got none'' l)), s1, cs1)
             \<and> (\<forall>cerr s2. wClose W s1 = (Returns cerr, s2) \<longrightarrow>
                   Import W p fin s
                     = (Returns ([], Some (nonNilMultiError
                          (Errorf ''expected timestamp for series %v, got none'' l) (errs_of cerr))),
                        s2, cs1 @ [Call_Close])))"
proof -
  have nb: "fst (Import_loop W p fin 0 s []) \<noteq> Break"
    by (rule Import_loop_missing [OF assms])
  note B = Import_body_no_break [OF nb]
  obtain r s1 cs where body: "Import_body W p fin s = (r, s1, cs)"
    by (cases "Import_body W p fin s")
  note C = Import_body_calls [OF body]
  have 1: "Call_Commit \<notin> set (snd (snd (Import W p fin s)))"
    "Call_Flush \<notin> set (snd (snd (Import W p fin s)))"
    using B(1,2) by (simp_all add: Import_calls)
  have 2: "\<forall>ref l' t v'. Call_Append ref l' t v' \<in> set (snd (snd (Import W p fin s)))
             \<longrightarrow> Item EntrySeries l' (Some t) v' \<in> set p"
    using C(2) by (simp add: Import_calls body)
  have 3: "fst (Import W p fin s) = Panics
            \<or> (\<exists>e es. fst (Import W p fin s) = Returns ([], Some (nonNilMultiError e es)))"
    using B(3) Err_Add_Some
    by (auto simp: Import_def body split: prod.splits outcome.splits)
  have 4: "Import_body W p fin s
               = (Returns ([], Some (Errorf ''expected timestamp for series %v, got none'' l)), s1', cs1)
             \<and> (\<forall>cerr s2. wClose W s1' = (Returns cerr, s2) \<longrightarrow>
                   Import W p fin s
                     = (Returns ([], Some (nonNilMultiError
                          (Errorf ''expected timestamp for series %v, got none'' l) (errs_of cerr))),
                        s2, cs1 @ [Call_Close]))"
    if "p = pre @ Item EntrySeries l None v # post"
      and "Import_loop W pre io_EOF 0 s [] = (Break, s1', cs1)"
    for pre post s1' cs1
  proof -
    have "Import_loop W p fin 0 s []
            = (Return_err (Errorf ''expected timestamp for series %v, got none'' l), s1', cs1)"
      unfolding that(1) by (rule Import_loop_reach [OF that(2)])
    then have b: "Import_body W p fin s
               = (Returns ([], Some (Errorf ''expected timestamp for series %v, got none'' l)), s1', cs1)"
      by (simp add: Import_body_def)
    show ?thesis
      by (simp add: b Import_def Add_eq NewMulti_def)
  qed
  show ?thesis
    using 1 2 3 4 by blast
qed




text \<open>
  The theorem at an input of a sample, a comment, a series entry without timestamp and one
  more sample, imported into an empty coordinator.
\<close>

theorem Import_missing_timestamp_witness:
  "Call_Commit \<notin> set (snd (snd (Import (MultiWriter_Writer ext_ok) p_missing io_EOF (mw0, world0))))
   \<and> Call_Flush \<notin> set (snd (snd (Import (MultiWriter_Writer ext_ok) p_missing io_EOF (mw0, world0))))
   \<and> fst (Import (MultiWriter_Writer ext_ok) p_missing io_EOF (mw0, world0))
       = Returns ([], Some (nonNilMultiError
           (Errorf ''expected timestamp for series %v, got none'' metric) []))
   \<and> snd (snd (Import (MultiWriter_Writer ext_ok) p_missing io_EOF (mw0, world0)))
       = [Call_Append 0 metric 1000 0, Call_Close]"
proof -
  let ?W = "MultiWriter_Writer ext_ok"
  let ?pre = "[Item EntrySeries metric (Some 1000) 0, Item EntryComment [] None 0]"
  let ?post = "[Item EntrySeries metric (Some 2000) 0]"
  have m: "Item EntrySeries metric None 0 \<in> set p_missing"
    by (simp add: p_missing_def)
  have d: "p_missing = ?pre @ Item EntrySeries metric None 0 # ?post"
    by (simp add: p_missing_def)
  obtain s1 where l: "Import_loop ?W ?pre io_EOF 0 (mw0, world0) [] = (Break, s1, [Call_Append 0 metric 1000 0])"
    and c: "fst (wClose ?W s1) = Returns None"
  proof -
    have "fst (Import_loop ?W ?pre io_EOF 0 (mw0, world0) []) = Break"
      "snd (snd (Import_loop ?W ?pre io_EOF 0 (mw0, world0) [])) = [Call_Append 0 metric 1000 0]"
      "fst (wClose ?W (fst (snd (Import_loop ?W ?pre io_EOF 0 (mw0, world0) [])))) = Returns None"
      by code_simp+
    then show ?thesis
      using that [of "fst (snd (Import_loop ?W ?pre io_EOF 0 (mw0, world0) []))"]
      by (metis prod.collapse)
  qed
  obtain s2 where c2: "wClose ?W s1 = (Returns None, s2)"
    using c by (cases "wClose ?W s1") auto
  note T = Import_missing_timestamp [OF m, of ?W io_EOF "(mw0, world0)"]
  have 1: "Call_Commit \<notin> set (snd (snd (Import ?W p_missing io_EOF (mw0, world0))))"
    "Call_Flush \<notin> set (snd (snd (Import ?W p_missing io_EOF (mw0, world0))))"
    using T by blast+
  have 2: "Import ?W p_missing io_EOF (mw0, world0)
     = (Returns ([], Some (nonNilMultiError
          (Errorf ''expected timestamp for series %v, got none'' metric) (errs_of None))),
        s2, [Call_Append 0 metric 1000 0] @ [Call_Close])"
    by (rule T [THEN conjunct2, THEN conjunct2, THEN conjunct2, THEN conjunct2, rule_format,
          OF conjI [OF d l], THEN conjunct2, rule_format, OF c2])
  show ?thesis
    using 1 by (simp add: 2)
qed

text \<open>
  When \<open>Import\<close> returns identifiers, the body returned them with a \<open>nil\<close> error: the
  parser, every \<open>Append\<close>, \<open>Commit\<close> and \<open>Flush\<close> succeeded, and an error that comes with
  them can only be that of \<open>Close\<close>. A \<open>nil\<close> error of \<open>Import\<close> means that the body and
  \<open>Close\<close> both returned \<open>nil\<close>.
\<close>

lemma Import_ids_from_body:
  assumes "fst (Import W p fin s) = Returns (ids, e)" "ids \<noteq> []"
  shows "fst (Import_body W p fin s) = Returns (ids, None)"
proof -
  obtain r s1 cs where b: "Import_body W p fin s = (r, s1, cs)"
    by (cases "Import_body W p fin s")
  obtain err where r: "r = Returns (ids, err)"
    using assms(1) by (auto simp: Import_def b split: prod.splits outcome.splits)
  have "err = None"
    using b assms(2) unfolding Import_body_def r
    by (auto split: prod.splits loop_exit.splits outcome.splits option.splits)
  then show ?thesis
    by (simp add: b r)
qed

lemma Import_nil_error:
  assumes "fst (Import W p fin s) = Returns (ids, None)"
  shows "fst (Import_body W p fin s) = Returns (ids, None)"
    and "fst (wClose W (fst (snd (Import_body W p fin s)))) = Returns None"
proof -
  obtain r s1 cs where b: "Import_body W p fin s = (r, s1, cs)"
    by (cases "Import_body W p fin s")
  obtain c s2 where c: "wClose W s1 = (c, s2)"
    by (cases "wClose W s1")
  obtain err cerr where r: "r = Returns (ids, err)" "c = Returns cerr"
    and e: "Err (Add (Add NewMulti err) cerr) = None"
    using assms by (auto simp: Import_def b c split: outcome.splits)
  have "errs_of err @ errs_of cerr = []"
    using e by (simp add: Add_eq NewMulti_def Err_None)
  then have "err = None" "cerr = None"
    by (simp_all add: errs_of_Nil)
  then show "fst (Import_body W p fin s) = Returns (ids, None)"
    and "fst (wClose W (fst (snd (Import_body W p fin s)))) = Returns None"
    by (simp_all add: b c r)
qed

text \<open>
  C3 at the input where it fails: one sample, every call succeeds but \<open>head.Close\<close>.
  \<open>Import\<close> returns the identifier of the flushed block together with a non-nil error.
\<close>

theorem Import_close_error_with_ids:
  "fst (Import (MultiWriter_Writer ext_close_fails) [Item EntrySeries metric (Some 1000) 0] io_EOF
          (mw0, world0))
     = Returns ([8], Some (nonNilMultiError (New ''close failed'') []))"
  by code_simp

text \<open>
  C2, as amended. Let a timestamp \<open>t\<close> fall into a range that has no handle yet, and let
  \<open>NewTSDBWriter\<close> fail with \<open>err\<close>. Then \<open>Append\<close> itself returns reference 0 and the error
  \<open>err\<close> wrapped as \<open>new tsdb writer\<close>, and leaves the coordinator as it was; each of the
  four methods of the handle made for this call returns that same error; and the loop of
  \<open>Import\<close> returns at this append with the error wrapped as \<open>add sample\<close>, so that an
  import whose first entry is this sample calls \<open>Append\<close> and \<open>Close\<close> and nothing else.
\<close>

theorem MultiWriter_Append_creation_failure:
  assumes k: "rangeKey t (sizeMillis w) = Some hash"
    and n: "map_of (activeAppenders w) hash = None"
    and f: "NewTSDBWriter x (mdir w) (mlabels w) s = ((nw, Some err), s1)"
  shows "MultiWriter_Append x ref l t v w s
           = (Returns (0, Some (Wrap err ''new tsdb writer'')), w,
              emit (E_Append (errAppender (Some (Wrap err ''new tsdb writer''))) ref l t v) s1)
       \<and> (\<forall>r' l' t' v'. errAppender_Append (Some (Wrap err ''new tsdb writer'')) r' l' t' v'
             = (0, Some (Wrap err ''new tsdb writer'')))
       \<and> (\<forall>r' l' e'. errAppender_AppendExemplar (Some (Wrap err ''new tsdb writer'')) r' l' e'
             = (0, Some (Wrap err ''new tsdb writer'')))
       \<and> errAppender_Commit (Some (Wrap err ''new tsdb writer'')) = Some (Wrap err ''new tsdb writer'')
       \<and> errAppender_Rollback (Some (Wrap err ''new tsdb writer'')) = Some (Wrap err ''new tsdb writer'')
       \<and> Import_loop (MultiWriter_Writer x) (Item EntrySeries l (Some t) v # p) fin ref (w, s) cs
           = (Return_err (Wrap (Wrap err ''new tsdb writer'') ''add sample''),
              (w, emit (E_Append (errAppender (Some (Wrap err ''new tsdb writer''))) ref l t v) s1),
              cs @ [Call_Append ref l t v])
       \<and> snd (snd (Import (MultiWriter_Writer x) (Item EntrySeries l (Some t) v # p) fin (w, s)))
           = [Call_Append 0 l t v, Call_Close]
       \<and> (fst (Import (MultiWriter_Writer x) (Item EntrySeries l (Some t) v # p) fin (w, s)) = Panics
            \<or> (\<exists>es. fst (Import (MultiWriter_Writer x) (Item EntrySeries l (Some t) v # p) fin (w, s))
                   = Returns ([], Some (nonNilMultiError
                       (Wrap (Wrap err ''new tsdb writer'') ''add sample'') es))))"
proof -
  have a: "MultiWriter_Append x r l t v w s
           = (Returns (0, Some (Wrap err ''new tsdb writer'')), w,
              emit (E_Append (errAppender (Some (Wrap err ''new tsdb writer''))) r l t v) s1)" for r
    by (simp add: MultiWriter_Append_def getOrCreate_failure [OF k n f] errAppender_Append_def)
  have b: "Import_loop (MultiWriter_Writer x) (Item EntrySeries l (Some t) v # p) fin r (w, s) c
           = (Return_err (Wrap (Wrap err ''new tsdb writer'') ''add sample''),
              (w, emit (E_Append (errAppender (Some (Wrap err ''new tsdb writer''))) r l t v) s1),
              c @ [Call_Append r l t v])" for r c
    by (simp add: MultiWriter_Writer_def a)
  have c: "Import_body (MultiWriter_Writer x) (Item EntrySeries l (Some t) v # p) fin (w, s)
           = (Returns ([], Some (Wrap (Wrap err ''new tsdb writer'') ''add sample'')),
              (w, emit (E_Append (errAppender (Some (Wrap err ''new tsdb writer''))) 0 l t v) s1),
              [Call_Append 0 l t v])"
    unfolding Import_body_def b by simp
  have d: "snd (snd (Import (MultiWriter_Writer x) (Item EntrySeries l (Some t) v # p) fin (w, s)))
           = [Call_Append 0 l t v, Call_Close]"
    by (simp add: Import_calls c)
  have e: "fst (Import (MultiWriter_Writer x) (Item EntrySeries l (Some t) v # p) fin (w, s)) = Panics
            \<or> (\<exists>es. fst (Import (MultiWriter_Writer x) (Item EntrySeries l (Some t) v # p) fin (w, s))
                   = Returns ([], Some (nonNilMultiError
                       (Wrap (Wrap err ''new tsdb writer'') ''add sample'') es)))"
    unfolding Import_def c
    by (auto simp: Add_eq NewMulti_def split: prod.splits outcome.splits)
  show ?thesis
    using a b d e
    by (simp add: errAppender_Append_def errAppender_AppendExemplar_def errAppender_Commit_def
        errAppender_Rollback_def del: Import_loop.simps)
qed

text \<open>The theorem where \<open>ioutil.TempDir\<close> fails, on an empty coordinator.\<close>

theorem MultiWriter_Append_creation_failure_witness:
  "MultiWriter_Append ext_no_tmp 0 metric 1000 0 mw0 world0
     = (Returns (0, Some (Wrap (Wrap (New ''disk full'') ''create temp dir'') ''new tsdb writer'')),
        mw0,
        \<lparr>store = [\<lparr>dir = ''out'', labels = [], head = None, tmpDir = []\<rparr>],
         trace = [E_TempDir 0,
                  E_NewTSDBWriter 0 (Some (Wrap (New ''disk full'') ''create temp dir'')),
                  E_Append (errAppender (Some (Wrap (Wrap (New ''disk full'') ''create temp dir'')
                     ''new tsdb writer''))) 0 metric 1000 0]\<rparr>)
   \<and> snd (snd (Import (MultiWriter_Writer ext_no_tmp) [Item EntrySeries metric (Some 1000) 0] io_EOF
         (mw0, world0)))
       = [Call_Append 0 metric 1000 0, Call_Close]"
proof -
  let ?s1 = "\<lparr>store = [\<lparr>dir = ''out'', labels = [], head = None, tmpDir = []\<rparr>],
         trace = [E_TempDir 0,
                  E_NewTSDBWriter 0 (Some (Wrap (New ''disk full'') ''create temp dir''))]\<rparr>"
  have k: "rangeKey 1000 (sizeMillis mw0) = Some \<lparr>Start = 0, End = 3600000\<rparr>"
    by code_simp
  have n: "map_of (activeAppenders mw0) \<lparr>Start = 0, End = 3600000\<rparr> = None"
    by code_simp
  have f: "NewTSDBWriter ext_no_tmp (mdir mw0) (mlabels mw0) world0
             = ((0, Some (Wrap (New ''disk full'') ''create temp dir'')), ?s1)"
    by code_simp
  show ?thesis
    using MultiWriter_Append_creation_failure [OF k n f, of 0 metric 0 "[]" io_EOF "[]"]
    by (simp add: emit_def del: Import_loop.simps)
qed

text \<open>
  C2 as stated fails there: \<open>Append\<close> returns the creation error, no handle is stored, and
  \<open>Import\<close> ends without calling \<open>Commit\<close> or \<open>Flush\<close>.
\<close>

theorem MultiWriter_Append_counterexample:
  "fst (MultiWriter_Append ext_no_tmp 0 metric 1000 0 mw0 world0)
     = Returns (0, Some (Wrap (Wrap (New ''disk full'') ''create temp dir'') ''new tsdb writer''))
   \<and> activeAppenders (fst (snd (MultiWriter_Append ext_no_tmp 0 metric 1000 0 mw0 world0))) = []
   \<and> snd (snd (Import (MultiWriter_Writer ext_no_tmp) [Item EntrySeries metric (Some 1000) 0] io_EOF
         (mw0, world0)))
       = [Call_Append 0 metric 1000 0, Call_Close]"
  by code_simp

section \<open>The coordinator's loops: proofs\<close>

lemma map_filter_in_range:
  "\<forall>i\<in>set ys. i < length m \<Longrightarrow>
     List.map_filter (\<lambda>i. if i < length m then Some (snd (m ! i)) else None) ys
       = map (\<lambda>i. snd (m ! i)) ys"
  by (induction ys) (auto simp: List.map_filter_simps)

lemma range_values_mset:
  assumes "\<forall>n ks. mset (range_order x n ks) = mset ks"
  shows "mset (range_values x s m) = mset (map snd m)"
proof -
  let ?ys = "range_order x (now s) [0..<length m]"
  let ?f = "\<lambda>i. if i < length m then Some (snd (m ! i)) else None"
  have ms: "mset ?ys = mset [0..<length m]"
    using assms by blast
  then have "set ?ys = set [0..<length m]"
    by (rule mset_eq_setD)
  then have r: "\<forall>i\<in>set ?ys. i < length m"
    by auto
  have eq: "range_values x s m = map (\<lambda>i. snd (m ! i)) ?ys"
    unfolding range_values_def by (rule map_filter_in_range [OF r])
  have "mset (range_values x s m) = image_mset (\<lambda>i. snd (m ! i)) (mset ?ys)"
    by (simp only: eq mset_map)
  also have "\<dots> = mset (map (\<lambda>i. snd (m ! i)) [0..<length m])"
    by (simp only: ms mset_map)
  also have "map (\<lambda>i. snd (m ! i)) [0..<length m] = map snd m"
    by (rule nth_equalityI) simp_all
  finally show ?thesis .
qed

lemma Appender_Commit_trace:
  "trace (snd (Appender_Commit x a s)) = trace s @ [E_Commit a]"
  by (cases a) simp_all

lemma Commit_loop_trace:
  "trace (snd (Commit_loop x as merr s)) = trace s @ map E_Commit as"
proof (induction as arbitrary: merr s)
  case Nil
  then show ?case by simp
next
  case (Cons a as)
  obtain err s1 where a: "Appender_Commit x a s = (err, s1)"
    by (cases "Appender_Commit x a s")
  show ?case
    using Cons.IH [of "Add merr err" s1] Appender_Commit_trace [of x a s]
    by (simp add: a)
qed

lemma Commit_loop_errs:
  "fst (Commit_loop x as merr s) = merr @ concat (map errs_of (Commit_errs x as s))"
proof (induction as arbitrary: merr s)
  case Nil
  then show ?case by simp
next
  case (Cons a as)
  obtain err s1 where a: "Appender_Commit x a s = (err, s1)"
    by (cases "Appender_Commit x a s")
  show ?case
    using Cons.IH [of "Add merr err" s1] by (simp add: a Add_eq)
qed

lemma length_Commit_errs: "length (Commit_errs x as s) = length as"
  by (induction as arbitrary: s) (auto split: prod.splits)

text \<open>
  C4. Let the \<open>range\<close> visit every entry once. Then \<open>Commit\<close> visits every active handle
  once, and it calls \<open>Commit\<close> on each of them whatever the others returned: the calls it
  adds to the trace are the \<open>Commit\<close> of each handle visited, and nothing else. Its error
  is the combination of the errors the handles returned, \<open>nil\<close> iff each returned \<open>nil\<close>.
\<close>

theorem MultiWriter_Commit_all:
  assumes "\<forall>n ks. mset (range_order x n ks) = mset ks"
  shows "mset (range_values x s (activeAppenders w)) = mset (map snd (activeAppenders w))
       \<and> trace (snd (MultiWriter_Commit x w s))
           = trace s @ map E_Commit (range_values x s (activeAppenders w))
       \<and> length (Commit_errs x (range_values x s (activeAppenders w)) s)
           = length (activeAppenders w)
       \<and> fst (MultiWriter_Commit x w s)
           = Err (concat (map errs_of (Commit_errs x (range_values x s (activeAppenders w)) s)))
       \<and> (fst (MultiWriter_Commit x w s) = None
            \<longleftrightarrow> (\<forall>err\<in>set (Commit_errs x (range_values x s (activeAppenders w)) s). err = None))"
proof -
  let ?hs = "range_values x s (activeAppenders w)"
  obtain merr s1 where l: "Commit_loop x ?hs NewMulti s = (merr, s1)"
    by (cases "Commit_loop x ?hs NewMulti s")
  have m: "mset ?hs = mset (map snd (activeAppenders w))"
    by (rule range_values_mset [OF assms])
  have t: "trace s1 = trace s @ map E_Commit ?hs"
    using Commit_loop_trace [of x ?hs NewMulti s] by (simp add: l)
  have e: "merr = concat (map errs_of (Commit_errs x ?hs s))"
    using Commit_loop_errs [of x ?hs NewMulti s] by (simp add: l) (simp add: NewMulti_def)
  have n: "length (Commit_errs x ?hs s) = length (activeAppenders w)"
    using mset_eq_length [OF m] by (simp add: length_Commit_errs)
  have "merr = [] \<longleftrightarrow> (\<forall>err\<in>set (Commit_errs x ?hs s). err = None)"
    by (auto simp: e errs_of_Nil)
  then show ?thesis
    using m t e n by (simp add: MultiWriter_Commit_def l Err_None)
qed

text \<open>
  The theorem at three builders of which the second fails to commit: all three are
  committed, and the error is the second builder's.
\<close>

theorem MultiWriter_Commit_all_witness:
  "fst (MultiWriter_Commit ext_commit2 (fst three_buckets) (snd three_buckets))
     = Some (nonNilMultiError (New ''commit failed'') [])
   \<and> trace (snd (MultiWriter_Commit ext_commit2 (fst three_buckets) (snd three_buckets)))
       = trace (snd three_buckets)
           @ [E_Commit (headAppender 0), E_Commit (headAppender 1), E_Commit (headAppender 2)]
   \<and> Commit_errs ext_commit2 [headAppender 0, headAppender 1, headAppender 2] (snd three_buckets)
       = [None, Some (New ''commit failed''), None]"
proof -
  have p: "\<forall>n ks. mset (range_order ext_commit2 n ks) = mset ks"
    by (simp add: ext_commit2_def ext_ok_def)
  have rv: "range_values ext_commit2 (snd three_buckets) (activeAppenders (fst three_buckets))
              = [headAppender 0, headAppender 1, headAppender 2]"
    by code_simp
  have ce: "Commit_errs ext_commit2 [headAppender 0, headAppender 1, headAppender 2]
              (snd three_buckets) = [None, Some (New ''commit failed''), None]"
    by code_simp
  have e: "Err (concat (map errs_of [None, Some (New ''commit failed''), None]))
             = Some (nonNilMultiError (New ''commit failed'') [])"
    by simp
  note T = MultiWriter_Commit_all [OF p, of "snd three_buckets" "fst three_buckets", unfolded rv ce]
  show ?thesis
  proof (intro conjI)
    show "fst (MultiWriter_Commit ext_commit2 (fst three_buckets) (snd three_buckets))
            = Some (nonNilMultiError (New ''commit failed'') [])"
      using T [THEN conjunct2, THEN conjunct2, THEN conjunct2, THEN conjunct1] by (simp only: e)
    show "trace (snd (MultiWriter_Commit ext_commit2 (fst three_buckets) (snd three_buckets)))
            = trace (snd three_buckets)
                @ [E_Commit (headAppender 0), E_Commit (headAppender 1), E_Commit (headAppender 2)]"
      using T [THEN conjunct2, THEN conjunct1] by (simp only: list.map)
    show "Commit_errs ext_commit2 [headAppender 0, headAppender 1, headAppender 2]
            (snd three_buckets) = [None, Some (New ''commit failed''), None]"
      by (rule ce)
  qed
qed

lemma flushed_append: "flushed (xs @ ys) = flushed xs @ flushed ys"
  by (induction xs rule: flushed.induct) simp_all

lemma TSDBWriter_Flush_flushed:
  "flushed (trace (snd (TSDBWriter_Flush x b s))) = flushed (trace s) @ [b]"
  by (auto simp: TSDBWriter_Flush_def Let_def flushed_append split: option.splits prod.splits)

lemma Flush_loop_all_ok:
  "\<forall>r\<in>set (Flush_results x bs s). flush_ok r \<Longrightarrow>
     fst (Flush_loop x bs ids s) = Returns (ids @ concat (map ids_of (Flush_results x bs s)), None)
     \<and> flushed (trace (snd (Flush_loop x bs ids s))) = flushed (trace s) @ bs"
proof (induction bs arbitrary: ids s)
  case Nil
  then show ?case by simp
next
  case (Cons b bs)
  obtain r s1 where f: "TSDBWriter_Flush x b s = (r, s1)"
    by (cases "TSDBWriter_Flush x b s")
  from Cons.prems have "flush_ok r" and rest: "\<forall>r\<in>set (Flush_results x bs s1). flush_ok r"
    by (simp_all add: f)
  then obtain ident where r: "r = Returns (ident, None)"
    by (cases r rule: flush_ok.cases) auto
  show ?case
    using Cons.IH [OF rest, of "ids @ ident"] TSDBWriter_Flush_flushed [of x b s]
    by (simp add: f r)
qed

lemma Flush_loop_first_error:
  "Flush_results x bs s = pre @ Returns (ident, Some e) # post \<Longrightarrow>
   \<forall>r\<in>set pre. flush_ok r \<Longrightarrow>
     fst (Flush_loop x bs ids s) = Returns ([], Some e)
     \<and> flushed (trace (snd (Flush_loop x bs ids s))) = flushed (trace s) @ take (Suc (length pre)) bs"
proof (induction bs arbitrary: ids s pre)
  case Nil
  then show ?case by simp
next
  case (Cons b bs)
  obtain r s1 where f: "TSDBWriter_Flush x b s = (r, s1)"
    by (cases "TSDBWriter_Flush x b s")
  show ?case
  proof (cases pre)
    case Nil
    then have "r = Returns (ident, Some e)"
      using Cons.prems(1) by (simp add: f)
    then show ?thesis
      using TSDBWriter_Flush_flushed [of x b s] by (simp add: f Nil)
  next
    case (Cons r' pre')
    then have r': "r' = r" and rest: "Flush_results x bs s1 = pre' @ Returns (ident, Some e) # post"
      using Cons.prems(1) by (simp_all add: f)
    have "flush_ok r" and ok: "\<forall>r\<in>set pre'. flush_ok r"
      using Cons.prems(2) Cons r' by simp_all
    then obtain i where r: "r = Returns (i, None)"
      by (cases r rule: flush_ok.cases) auto
    show ?thesis
      using Cons.IH [OF rest ok, of "ids @ i"] TSDBWriter_Flush_flushed [of x b s]
      by (simp add: f r Cons)
  qed
qed

text \<open>
  C5. Let the \<open>range\<close> visit every entry once; then \<open>Flush\<close> visits every created builder
  once. If the \<open>Flush\<close> of each builder succeeds, the result is the concatenation of their
  identifiers, and \<open>Flush\<close> was called on each. If the builders before some builder succeed
  and that one returns an error, the result is no identifier and that error, and \<open>Flush\<close>
  was called on the builders up to that one and on no later one.
\<close>

theorem MultiWriter_Flush_fail_fast:
  assumes "\<forall>n ks. mset (range_order x n ks) = mset ks"
  shows "mset (range_values x s (blocks w)) = mset (map snd (blocks w))
       \<and> ((\<forall>r\<in>set (Flush_results x (range_values x s (blocks w)) s). flush_ok r) \<longrightarrow>
            fst (MultiWriter_Flush x w s)
              = Returns (concat (map ids_of (Flush_results x (range_values x s (blocks w)) s)), None)
            \<and> flushed (trace (snd (MultiWriter_Flush x w s)))
                = flushed (trace s) @ range_values x s (blocks w))
       \<and> (\<forall>pre ident e post.
            Flush_results x (range_values x s (blocks w)) s = pre @ Returns (ident, Some e) # post
            \<and> (\<forall>r\<in>set pre. flush_ok r) \<longrightarrow>
            fst (MultiWriter_Flush x w s) = Returns ([], Some e)
            \<and> flushed (trace (snd (MultiWriter_Flush x w s)))
                = flushed (trace s) @ take (Suc (length pre)) (range_values x s (blocks w)))"
  using range_values_mset [OF assms, of s "blocks w"]
    Flush_loop_all_ok [of x "range_values x s (blocks w)" s "[]"]
    Flush_loop_first_error [of x "range_values x s (blocks w)" s _ _ _ _ "[]"]
  by (simp add: MultiWriter_Flush_def)

text \<open>
  The theorem at three builders: where the second fails to write its block, the error is
  returned and the third is not flushed; where all succeed, three identifiers come back.
\<close>

theorem MultiWriter_Flush_fail_fast_witness:
  "fst (MultiWriter_Flush ext_flush2 (fst three_buckets) (snd three_buckets))
     = Returns ([], Some (Wrap (New ''disk full'') ''compactor write''))
   \<and> flushed (trace (snd (MultiWriter_Flush ext_flush2 (fst three_buckets) (snd three_buckets))))
       = [0, 1]
   \<and> fst (MultiWriter_Flush ext_ok (fst three_buckets) (snd three_buckets))
       = Returns ([17, 22, 27], None)
   \<and> flushed (trace (snd (MultiWriter_Flush ext_ok (fst three_buckets) (snd three_buckets))))
       = [0, 1, 2]"
proof -
  have p: "\<forall>n ks. mset (range_order ext_flush2 n ks) = mset ks"
    "\<forall>n ks. mset (range_order ext_ok n ks) = mset ks"
    by (simp_all add: ext_flush2_def ext_ok_def)
  have rv: "range_values ext_flush2 (snd three_buckets) (blocks (fst three_buckets)) = [0, 1, 2]"
    "range_values ext_ok (snd three_buckets) (blocks (fst three_buckets)) = [0, 1, 2]"
    by code_simp+
  have fr: "Flush_results ext_flush2 [0, 1, 2] (snd three_buckets)
              = [Returns ([17], None)]
                  @ Returns ([], Some (Wrap (New ''disk full'') ''compactor write''))
                  # [Returns ([25], None)]"
    by code_simp
  have fo: "Flush_results ext_ok [0, 1, 2] (snd three_buckets)
              = [Returns ([17], None), Returns ([22], None), Returns ([27], None)]"
    by code_simp
  have t0: "flushed (trace (snd three_buckets)) = []"
    by code_simp
  have ok1: "\<forall>r\<in>set [Returns ([17 :: ULID], None :: error option)]. flush_ok r"
    by simp
  have ok3: "\<forall>r\<in>set [Returns ([17 :: ULID], None :: error option), Returns ([22], None),
               Returns ([27], None)]. flush_ok r"
    by simp
  note T2 = MultiWriter_Flush_fail_fast [OF p(1), of "snd three_buckets" "fst three_buckets",
      unfolded rv, THEN conjunct2, THEN conjunct2, rule_format, OF conjI [OF fr ok1]]
  note T3 = MultiWriter_Flush_fail_fast [OF p(2), of "snd three_buckets" "fst three_buckets",
      unfolded rv fo, THEN conjunct2, THEN conjunct1, THEN mp, OF ok3]
  show ?thesis
    using T2 T3 by (simp add: t0)
qed

section \<open>The two maps and the close of every builder: proofs\<close>

lemma update_fresh:
  "k \<notin> fst ` set al \<Longrightarrow> AList.update k v al = al @ [(k, v)]"
  by (induction al) auto

lemma keys_handles [simp]: "fst ` set (handles bl) = fst ` set bl"
  by (force simp: handles_def)

lemma map_of_handles_None: "map_of (handles bl) k = None \<longleftrightarrow> k \<notin> fst ` set bl"
  by (simp add: map_of_eq_None_iff)

lemma handles_append [simp]: "handles (bl @ [(k, a)]) = handles bl @ [(k, headAppender a)]"
  by (simp add: handles_def)

lemma getOrCreate_handles:
  assumes "activeAppenders w = handles (blocks w)"
    and "getOrCreate x t w s = (r, w1, s1)"
  shows "activeAppenders w1 = handles (blocks w1)"
proof (cases "rangeKey t (sizeMillis w)")
  case None
  then show ?thesis
    using assms by (simp add: getOrCreate_def)
next
  case (Some hash)
  show ?thesis
  proof (cases "map_of (activeAppenders w) hash")
    case (Some a)
    then show ?thesis
      using assms \<open>rangeKey t (sizeMillis w) = Some hash\<close> by (simp add: getOrCreate_def)
  next
    case None
    then have fresh: "hash \<notin> fst ` set (blocks w)" "hash \<notin> fst ` set (activeAppenders w)"
      using assms(1) by (simp_all add: map_of_handles_None)
    obtain nw err s' where n: "NewTSDBWriter x (mdir w) (mlabels w) s = ((nw, err), s')"
      by (cases "NewTSDBWriter x (mdir w) (mlabels w) s") auto
    show ?thesis
    proof (cases err)
      case (Some e)
      then show ?thesis
        using assms getOrCreate_failure [OF \<open>rangeKey t (sizeMillis w) = Some hash\<close> None] n
        by simp
    next
      case None': None
      have "getOrCreate x t w s =
           (Returns (headAppender nw),
            w\<lparr>blocks := AList.update hash nw (blocks w),
              activeAppenders := AList.update hash (headAppender nw) (activeAppenders w)\<rparr>,
            s')"
        using getOrCreate_success [OF \<open>rangeKey t (sizeMillis w) = Some hash\<close> None] n None'
        by simp
      then show ?thesis
        using assms fresh by (auto simp: update_fresh)
    qed
  qed
qed

lemma step_handles:
  assumes "activeAppenders w = handles (blocks w)" "step x opn (w, s) = (w1, s1)"
  shows "activeAppenders w1 = handles (blocks w1)"
proof (cases opn)
  case (Op_Append ref l t v)
  obtain r w' s' where g: "getOrCreate x t w s = (r, w', s')"
    by (cases "getOrCreate x t w s")
  have "w1 = w'"
    using assms(2) by (auto simp: Op_Append MultiWriter_Append_def g split: outcome.splits prod.splits)
  then show ?thesis
    using getOrCreate_handles [OF assms(1) g] by simp
next
  case (Op_AppendExemplar ref l e)
  obtain r w' s' where g: "getOrCreate x (Ts e) w s = (r, w', s')"
    by (cases "getOrCreate x (Ts e) w s")
  have "w1 = w'"
    using assms(2)
    by (auto simp: Op_AppendExemplar MultiWriter_AppendExemplar_def g split: outcome.splits prod.splits)
  then show ?thesis
    using getOrCreate_handles [OF assms(1) g] by simp
qed (use assms in auto)

lemma run_handles:
  "activeAppenders (fst st) = handles (blocks (fst st)) \<Longrightarrow>
   activeAppenders (fst (run x ops st)) = handles (blocks (fst (run x ops st)))"
proof (induction ops arbitrary: st)
  case Nil
  then show ?case by (simp add: run_def)
next
  case (Cons opn ops)
  obtain w s where st: "st = (w, s)" by (cases st)
  obtain w1 s1 where s1: "step x opn (w, s) = (w1, s1)" by (cases "step x opn (w, s)")
  have "activeAppenders w1 = handles (blocks w1)"
    using step_handles [OF _ s1] Cons.prems by (simp add: st)
  then show ?case
    using Cons.IH [of "(w1, s1)"] by (simp add: run_def st s1)
qed

text \<open>
  C9. In every state the coordinator reaches from \<open>NewMultiWriter\<close> by any sequence of
  \<open>Append\<close>, \<open>AppendExemplar\<close>, \<open>Commit\<close>, \<open>Rollback\<close>, \<open>Flush\<close> and \<open>Close\<close>, whatever the
  libraries answer, the two maps have the same keys; indeed the handle map holds, key by
  key, the head appender of the builder the builder map holds.
\<close>

theorem run_same_keys:
  "fst ` set (blocks (fst (run x ops (NewMultiWriter d width lbls, s))))
     = fst ` set (activeAppenders (fst (run x ops (NewMultiWriter d width lbls, s))))
   \<and> activeAppenders (fst (run x ops (NewMultiWriter d width lbls, s)))
       = handles (blocks (fst (run x ops (NewMultiWriter d width lbls, s))))"
proof -
  have "activeAppenders (fst (run x ops (NewMultiWriter d width lbls, s)))
       = handles (blocks (fst (run x ops (NewMultiWriter d width lbls, s))))"
    by (rule run_handles) (simp add: NewMultiWriter_def handles_def)
  then show ?thesis
    by simp
qed

lemma has_head_emit [simp]: "has_head (emit e s) a = has_head s a"
  by (simp add: has_head_def)

lemma created_append: "created (xs @ ys) = created xs @ created ys"
  by (induction xs rule: created.induct) simp_all

lemma closed_append: "closed (xs @ ys) = closed xs @ closed ys"
  by (induction xs rule: closed.induct) simp_all

lemma quiet_refl [simp]: "quiet s s"
  by (simp add: quiet_def)

lemma quiet_trans: "quiet s s1 \<Longrightarrow> quiet s1 s2 \<Longrightarrow> quiet s s2"
  by (simp add: quiet_def)

lemma has_head_update_writer:
  assumes "\<And>w. head w \<noteq> None \<Longrightarrow> head (f w) \<noteq> None" "has_head s b"
  shows "has_head (update_writer a f s) b"
  using assms unfolding has_head_def
  by (auto simp: head_of_update_writer) (auto simp: head_of_def)

lemma quiet_Appender_Append: "quiet s (snd (Appender_Append x a ref l t v s))"
proof (cases a)
  case (errAppender err)
  then show ?thesis
    by (simp add: quiet_def created_append closed_append)
next
  case (headAppender b)
  show ?thesis
    by (auto simp: headAppender quiet_def created_append closed_append Let_def
        intro!: has_head_update_writer split: prod.splits option.splits)
qed

lemma quiet_Appender_Commit: "quiet s (snd (Appender_Commit x a s))"
  by (cases a) (auto simp: quiet_def created_append closed_append)

lemma quiet_Commit_loop: "quiet s (snd (Commit_loop x as merr s))"
proof (induction as arbitrary: merr s)
  case Nil
  then show ?case by simp
next
  case (Cons a as)
  obtain err s1 where a: "Appender_Commit x a s = (err, s1)"
    by (cases "Appender_Commit x a s")
  have "quiet s s1"
    using quiet_Appender_Commit [of s x a] by (simp add: a)
  then show ?case
    using Cons.IH [where merr = "Add merr err" and s = s1] by (auto simp: a intro: quiet_trans)
qed

lemma quiet_TSDBWriter_Flush: "quiet s (snd (TSDBWriter_Flush x b s))"
  by (auto simp: TSDBWriter_Flush_def Let_def quiet_def created_append closed_append
      split: option.splits prod.splits)

lemma quiet_Flush_loop: "quiet s (snd (Flush_loop x bs ids s))"
proof (induction bs arbitrary: ids s)
  case Nil
  then show ?case by simp
next
  case (Cons b bs)
  obtain r s1 where f: "TSDBWriter_Flush x b s = (r, s1)"
    by (cases "TSDBWriter_Flush x b s")
  have q: "quiet s s1"
    using quiet_TSDBWriter_Flush [of s x b] by (simp add: f)
  show ?case
  proof (cases "\<exists>ident. r = Returns (ident, None)")
    case True
    then obtain ident where "r = Returns (ident, None)" by auto
    then show ?thesis
      using Cons.IH [where ids = "ids @ ident" and s = s1] q by (auto simp: f intro: quiet_trans)
  next
    case False
    then have "snd (Flush_loop x (b # bs) ids s) = s1"
      by (auto simp: f split: outcome.splits option.splits)
    then show ?thesis
      using q by simp
  qed
qed

lemma initHead_heads:
  assumes "initHead x a s = (err, s1)" "has_head s b"
  shows "has_head s1 b"
proof -
  have k: "has_head (update_writer a (\<lambda>w. w\<lparr>tmpDir := tmp\<rparr>) s') b"
    if "has_head s' b" for s' tmp
    using that by (intro has_head_update_writer) auto
  have h: "has_head (update_writer a (\<lambda>w. w\<lparr>head := Some \<lparr>appended = []\<rparr>\<rparr>) s') b"
    if "has_head s' b" for s'
    using that by (intro has_head_update_writer) auto
  show ?thesis
    using assms
    by (auto simp: initHead_def Let_def intro!: k h split: prod.splits option.splits)
qed

lemma initHead_trace:
  assumes "initHead x a s = (err, s1)"
  shows "created (trace s1) = created (trace s)" "closed (trace s1) = closed (trace s)"
  using assms
  by (auto simp: initHead_def Let_def created_append closed_append
      split: prod.splits option.splits)

lemma NewTSDBWriter_effect:
  assumes "NewTSDBWriter x d lbls s = ((nw, err), s1)"
  shows "created (trace s1) = created (trace s) @ (if err = None then [nw] else [])"
    and "closed (trace s1) = closed (trace s)"
    and "\<forall>a. has_head s a \<longrightarrow> has_head s1 a"
    and "\<not> has_head s nw"
proof -
  let ?s0 = "s\<lparr>store := store s @ [\<lparr>dir = d, labels = lbls, head = None, tmpDir = []\<rparr>]\<rparr>"
  have nw: "nw = length (store s)"
    using assms by (rule NewTSDBWriter_address)
  obtain s2 where i: "initHead x nw ?s0 = (err, s2)" and s1: "s1 = emit (E_NewTSDBWriter nw err) s2"
    using assms by (auto simp: NewTSDBWriter_def Let_def split: prod.splits)
  show "\<not> has_head s nw"
    by (simp add: nw head_of_def has_head_def)
  show "created (trace s1) = created (trace s) @ (if err = None then [nw] else [])"
    using initHead_trace(1) [OF i] by (cases err) (simp_all add: s1 created_append)
  show "closed (trace s1) = closed (trace s)"
    using initHead_trace(2) [OF i] by (simp add: s1 closed_append)
  show "\<forall>a. has_head s a \<longrightarrow> has_head s1 a"
  proof (intro allI impI)
    fix a
    assume "has_head s a"
    then have "has_head ?s0 a"
      by (auto simp: has_head_def head_of_def nth_append split: if_splits)
    then show "has_head s1 a"
      using initHead_heads [OF i] by (simp add: s1)
  qed
qed

lemma ok_quiet: "coordinator_ok w s \<Longrightarrow> quiet s s1 \<Longrightarrow> coordinator_ok w s1"
  by (simp add: coordinator_ok_def quiet_def)

lemma ok_getOrCreate:
  assumes ok: "coordinator_ok w s"
    and g: "getOrCreate x t w s = (r, w1, s1)"
  shows "coordinator_ok w1 s1"
proof (cases "rangeKey t (sizeMillis w)")
  case None
  then show ?thesis
    using assms by (simp add: getOrCreate_def)
next
  case (Some hash)
  note k = this
  show ?thesis
  proof (cases "map_of (activeAppenders w) hash")
    case (Some a)
    then show ?thesis
      using assms k by (simp add: getOrCreate_def)
  next
    case None
    then have fresh: "hash \<notin> fst ` set (blocks w)" "hash \<notin> fst ` set (activeAppenders w)"
      using ok by (simp_all add: coordinator_ok_def map_of_handles_None)
    obtain nw err s' where n: "NewTSDBWriter x (mdir w) (mlabels w) s = ((nw, err), s')"
      by (cases "NewTSDBWriter x (mdir w) (mlabels w) s") auto
    note e = NewTSDBWriter_effect [OF n]
    show ?thesis
    proof (cases err)
      case (Some er)
      then have "w1 = w" "s1 = s'"
        using g getOrCreate_failure [OF k None] n by simp_all
      then show ?thesis
        using ok e Some by (simp add: coordinator_ok_def)
    next
      case None': None
      have "getOrCreate x t w s =
           (Returns (headAppender nw),
            w\<lparr>blocks := AList.update hash nw (blocks w),
              activeAppenders := AList.update hash (headAppender nw) (activeAppenders w)\<rparr>,
            s')"
        using getOrCreate_success [OF k None] n None' by simp
      then have w1: "w1 = w\<lparr>blocks := blocks w @ [(hash, nw)],
              activeAppenders := activeAppenders w @ [(hash, headAppender nw)]\<rparr>"
        and s1: "s1 = s'"
        using g fresh by (simp_all add: update_fresh)
      have new: "nw \<notin> set (created (trace s))"
        using ok e(4) by (auto simp: coordinator_ok_def)
      have hd: "has_head s' nw"
        using NewTSDBWriter_success [of x "mdir w" "mlabels w" s nw s'] n None'
        by (simp add: has_head_def)
      show ?thesis
        using ok e(1,2,3) new hd None' by (auto simp: coordinator_ok_def w1 s1)
    qed
  qed
qed

lemma ok_MultiWriter_Append:
  assumes "coordinator_ok w s" "MultiWriter_Append x ref l t v w s = (r, w1, s1)"
  shows "coordinator_ok w1 s1"
proof -
  obtain ra w' s' where g: "getOrCreate x t w s = (ra, w', s')"
    by (cases "getOrCreate x t w s")
  note ok' = ok_getOrCreate [OF assms(1) g]
  show ?thesis
  proof (cases ra)
    case Panics
    then show ?thesis
      using assms(2) ok' by (simp add: MultiWriter_Append_def g)
  next
    case (Returns a)
    then have "w1 = w'" "s1 = snd (Appender_Append x a ref l t v s')"
      using assms(2) by (auto simp: MultiWriter_Append_def g split: prod.splits)
    then show ?thesis
      using ok_quiet [OF ok' quiet_Appender_Append] by simp
  qed
qed

lemma ok_Import_loop:
  "coordinator_ok w s \<Longrightarrow>
   Import_loop (MultiWriter_Writer x) p fin ref (w, s) cs = (ex, (w1, s1), cs1) \<Longrightarrow>
   coordinator_ok w1 s1"
proof (induction p arbitrary: ref w s cs)
  case Nil
  then show ?case by (auto split: if_splits)
next
  case (Cons i p)
  obtain e l ts v where i: "i = Item e l ts v" by (cases i)
  show ?case
  proof (cases "e = EntrySeries \<and> ts \<noteq> None")
    case False
    then show ?thesis
      using Cons.prems Cons.IH [of w s ref cs] by (auto simp: i split: if_splits)
  next
    case True
    then obtain t where t: "ts = Some t" "e = EntrySeries" by auto
    obtain r w' s' where a: "MultiWriter_Append x ref l t v w s = (r, w', s')"
      by (cases "MultiWriter_Append x ref l t v w s")
    note ok' = ok_MultiWriter_Append [OF Cons.prems(1) a]
    have wa: "wAppend (MultiWriter_Writer x) ref l t v (w, s) = (r, (w', s'))"
      by (simp add: MultiWriter_Writer_def a)
    show ?thesis
    proof (cases "\<exists>ref1. r = Returns (ref1, None)")
      case False
      then have "w1 = w'" "s1 = s'"
        using Cons.prems(2) by (auto simp: i t wa split: outcome.splits option.splits)
      then show ?thesis using ok' by simp
    next
      case True
      then obtain ref1 where r: "r = Returns (ref1, None)" by auto
      have "Import_loop (MultiWriter_Writer x) p fin ref1 (w', s') (cs @ [Call_Append ref l t v])
              = (ex, (w1, s1), cs1)"
        using Cons.prems(2) by (simp add: i t wa r)
      from Cons.IH [OF ok' this] show ?thesis .
    qed
  qed
qed

lemma ok_Import_body:
  assumes "coordinator_ok w s"
    and "Import_body (MultiWriter_Writer x) p fin (w, s) = (r, (w1, s1), cs)"
  shows "coordinator_ok w1 s1"
proof -
  obtain ex w' s' cs' where l: "Import_loop (MultiWriter_Writer x) p fin 0 (w, s) [] = (ex, (w', s'), cs')"
    by (cases "Import_loop (MultiWriter_Writer x) p fin 0 (w, s) []") auto
  note ok' = ok_Import_loop [OF assms(1) l]
  show ?thesis
  proof (cases ex)
    case Break
    let ?sc = "snd (MultiWriter_Commit x w' s')"
    have qc: "quiet s' ?sc"
      using quiet_Commit_loop [of s' x "range_values x s' (activeAppenders w')" NewMulti]
      by (auto simp: MultiWriter_Commit_def split: prod.splits)
    have qf: "quiet ?sc (snd (MultiWriter_Flush x w' ?sc))"
      using quiet_Flush_loop [of ?sc x "range_values x ?sc (blocks w')" "[]"]
      by (simp add: MultiWriter_Flush_def)
    have wc: "wCommit (MultiWriter_Writer x) (w', s')
                = (Returns (fst (MultiWriter_Commit x w' s')), (w', ?sc))"
      by (simp add: MultiWriter_Writer_def split: prod.splits)
    have wf: "wFlush (MultiWriter_Writer x) (w', ?sc)
                = (fst (MultiWriter_Flush x w' ?sc), (w', snd (MultiWriter_Flush x w' ?sc)))"
      by (simp add: MultiWriter_Writer_def split: prod.splits)
    have "w1 = w' \<and> (s1 = ?sc \<or> s1 = snd (MultiWriter_Flush x w' ?sc))"
      using assms(2) unfolding Import_body_def l Break
      by (auto simp: wc wf split: outcome.splits option.splits prod.splits)
    then show ?thesis
      using ok_quiet [OF ok' qc] ok_quiet [OF ok_quiet [OF ok' qc] qf] by auto
  next
    case (Return_err e)
    then show ?thesis
      using assms(2) ok' by (simp add: Import_body_def l)
  next
    case Panic
    then show ?thesis
      using assms(2) ok' by (simp add: Import_body_def l)
  qed
qed

lemma TSDBWriter_Close_effect:
  assumes "has_head s b"
  shows "\<exists>err. fst (TSDBWriter_Close x b s) = Returns err"
    and "closed (trace (snd (TSDBWriter_Close x b s))) = closed (trace s) @ [b]"
    and "created (trace (snd (TSDBWriter_Close x b s))) = created (trace s)"
    and "has_head (snd (TSDBWriter_Close x b s)) a = has_head s a"
  using assms
  by (auto simp: TSDBWriter_Close_def Let_def has_head_def closed_append created_append
      split: option.splits)

lemma Close_loop_effect:
  "\<forall>b\<in>set bs. has_head s b \<Longrightarrow>
     (\<exists>merr'. fst (Close_loop x bs merr s) = Returns merr')
     \<and> closed (trace (snd (Close_loop x bs merr s))) = closed (trace s) @ bs
     \<and> created (trace (snd (Close_loop x bs merr s))) = created (trace s)"
proof (induction bs arbitrary: merr s)
  case Nil
  then show ?case by simp
next
  case (Cons b bs)
  obtain r s1 where c: "TSDBWriter_Close x b s = (r, s1)"
    by (cases "TSDBWriter_Close x b s")
  have hb: "has_head s b"
    using Cons.prems by simp
  from TSDBWriter_Close_effect [OF hb, of x] obtain err where r: "r = Returns err"
    and cl: "closed (trace s1) = closed (trace s) @ [b]"
    and cr: "created (trace s1) = created (trace s)"
    and hh: "\<And>a. has_head s1 a = has_head s a"
    by (auto simp: c)
  have "\<forall>b\<in>set bs. has_head s1 b"
    using Cons.prems by (simp add: hh)
  from Cons.IH [OF this, of "Add merr err"] show ?case
    by (simp add: c r cl cr)
qed

lemma Import_state:
  "fst (snd (Import W p fin s)) = snd (wClose W (fst (snd (Import_body W p fin s))))"
  by (auto simp: Import_def split: prod.splits outcome.splits)

lemma errs_of_Err [simp]: "errs_of (Err es) = es"
  by (cases es) simp_all

lemma Import_closes_MultiWriter:
  assumes perm: "\<forall>n ks. mset (range_order x n ks) = mset ks"
    and ok: "coordinator_ok w s"
  shows "mset (closed (trace (snd (fst (snd (Import (MultiWriter_Writer x) p fin (w, s)))))))
           = mset (created (trace (snd (fst (snd (Import (MultiWriter_Writer x) p fin (w, s)))))))
       \<and> distinct (created (trace (snd (fst (snd (Import (MultiWriter_Writer x) p fin (w, s)))))))"
proof -
  obtain r w1 s1 cs where b: "Import_body (MultiWriter_Writer x) p fin (w, s) = (r, (w1, s1), cs)"
    by (cases "Import_body (MultiWriter_Writer x) p fin (w, s)") auto
  note ok1 = ok_Import_body [OF ok b]
  let ?bs = "range_values x s1 (blocks w1)"
  have e: "map snd (blocks w1) = created (trace s1)"
    using ok1 by (simp add: coordinator_ok_def)
  have m: "mset ?bs = mset (created (trace s1))"
    unfolding e [symmetric] by (rule range_values_mset [OF perm])
  then have "set ?bs = set (created (trace s1))"
    by (rule mset_eq_setD)
  then have h: "\<forall>b\<in>set ?bs. has_head s1 b"
    using ok1 by (simp add: coordinator_ok_def)
  note c = Close_loop_effect [OF h, of x NewMulti]
  have wcl: "wClose (MultiWriter_Writer x) (w1, s1)
               = (fst (MultiWriter_Close x w1 s1), (w1, snd (MultiWriter_Close x w1 s1)))"
    by (simp add: MultiWriter_Writer_def split: prod.splits)
  have mcl: "snd (MultiWriter_Close x w1 s1) = snd (Close_loop x ?bs NewMulti s1)"
    by (auto simp: MultiWriter_Close_def split: prod.splits outcome.splits)
  have st: "snd (fst (snd (Import (MultiWriter_Writer x) p fin (w, s))))
              = snd (Close_loop x ?bs NewMulti s1)"
    by (simp add: Import_state b wcl mcl)
  show ?thesis
    using c m ok1 by (simp add: st coordinator_ok_def)
qed

text \<open>
  C6. Whatever the target, the input and the outcome, \<open>Import\<close> calls \<open>Close\<close> on the
  target exactly once; and when the body and \<open>Close\<close> return, the error of \<open>Import\<close> holds
  the errors of the body followed by those of \<open>Close\<close>. For a new coordinator as target,
  in a world with no calls yet and a \<open>range\<close> that visits every entry once: at the end of
  \<open>Import\<close> the builders closed are the builders created, each created once and so each
  closed once.
\<close>

theorem Import_closes_once:
  assumes "\<forall>n ks. mset (range_order x n ks) = mset ks"
  shows "count_list (snd (snd (Import W p fin s))) Call_Close = 1
       \<and> (\<forall>ids err s1 cs cerr s2.
             Import_body W p fin s = (Returns (ids, err), s1, cs)
             \<and> wClose W s1 = (Returns cerr, s2) \<longrightarrow>
             (\<exists>e. Import W p fin s = (Returns (ids, e), s2, cs @ [Call_Close])
                  \<and> errs_of e = errs_of err @ errs_of cerr))
       \<and> mset (closed (trace (snd (fst (snd (Import (MultiWriter_Writer x) p fin
               (NewMultiWriter d width lbls, \<lparr>store = st, trace = []\<rparr>)))))))
           = mset (created (trace (snd (fst (snd (Import (MultiWriter_Writer x) p fin
               (NewMultiWriter d width lbls, \<lparr>store = st, trace = []\<rparr>)))))))
       \<and> distinct (created (trace (snd (fst (snd (Import (MultiWriter_Writer x) p fin
               (NewMultiWriter d width lbls, \<lparr>store = st, trace = []\<rparr>)))))))"
proof -
  obtain r s1 cs where b: "Import_body W p fin s = (r, s1, cs)"
    by (cases "Import_body W p fin s")
  have 1: "count_list (snd (snd (Import W p fin s))) Call_Close = 1"
    using Import_body_calls(1) [OF b] by (simp add: Import_calls b)
  have 2: "\<exists>e. Import W p fin s = (Returns (ids, e), s2, cs' @ [Call_Close])
                  \<and> errs_of e = errs_of err @ errs_of cerr"
    if "Import_body W p fin s = (Returns (ids, err), s1', cs')"
      and "wClose W s1' = (Returns cerr, s2)" for ids err s1' cs' cerr s2
    using that by (simp add: Import_def Add_eq NewMulti_def)
  have ok: "coordinator_ok (NewMultiWriter d width lbls) \<lparr>store = st, trace = []\<rparr>"
    by (simp add: coordinator_ok_def NewMultiWriter_def handles_def)
  show ?thesis
    using 1 2 Import_closes_MultiWriter [OF assms ok] by blast
qed

text \<open>
  The theorem at two samples in two buckets, where the second flush fails and so does
  every close: both builders are closed once, and the error holds the flush error and
  both close errors.
\<close>

theorem Import_closes_once_witness:
  "count_list (snd (snd (Import (MultiWriter_Writer ext_flush_close) p_two io_EOF (mw0, world0))))
     Call_Close = 1
   \<and> fst (Import (MultiWriter_Writer ext_flush_close) p_two io_EOF (mw0, world0))
       = Returns ([], Some (nonNilMultiError
           (Wrap (Wrap (New ''disk full'') ''compactor write'') ''flush'')
           [New ''close failed'', New ''close failed'']))
   \<and> closed (trace (snd (fst (snd
         (Import (MultiWriter_Writer ext_flush_close) p_two io_EOF (mw0, world0)))))) = [0, 1]
   \<and> created (trace (snd (fst (snd
         (Import (MultiWriter_Writer ext_flush_close) p_two io_EOF (mw0, world0)))))) = [0, 1]"
proof -
  let ?W = "MultiWriter_Writer ext_flush_close"
  let ?I = "Import ?W p_two io_EOF (mw0, world0)"
  have p: "\<forall>n ks. mset (range_order ext_flush_close n ks) = mset ks"
    by (simp add: ext_flush_close_def ext_ok_def)
  note T = Import_closes_once [OF p, where W = ?W and p = p_two and fin = io_EOF
      and s = "(mw0, world0)" and d = "''out''" and width = 3600000 and lbls = "[]" and st = "[]"]
  have 1: "count_list (snd (snd ?I)) Call_Close = 1"
    using T by blast
  have r: "fst ?I = Returns ([], Some (nonNilMultiError
           (Wrap (Wrap (New ''disk full'') ''compactor write'') ''flush'')
           [New ''close failed'', New ''close failed'']))"
    by code_simp
  have c: "created (trace (snd (fst (snd ?I)))) = [0, 1]"
    by code_simp
  have "mset (closed (trace (snd (fst (snd ?I))))) = mset (created (trace (snd (fst (snd ?I)))))"
    using T by (simp add: mw0_def world0_def)
  moreover have "closed (trace (snd (fst (snd ?I)))) = [0, 1]"
    by code_simp
  ultimately show ?thesis
    using 1 r c by simp
qed

end
